theory Spec2Isabelle
  imports Main "HOL-Library.AList"
begin

section \<open>Values of the host language\<close>

text \<open>
  The analyzer is a TypeScript class. Its exceptions are modelled as values: an
  \<open>Error\<close> or \<open>TypeError\<close> instance is identified by its message, a
  \<open>PackageNotFoundError\<close> by the three arguments of its constructor. A \<open>throw\<close> may
  carry any value, so a thrown value is either an \<open>Error\<close> instance or something else
  (kept as its \<open>String(...)\<close> rendering).
\<close>

datatype error =
    Error string
  | TypeError string
  | PackageNotFoundError string string "error option"

datatype thrown =
    Thrown error
  | ThrownValue string

text \<open>
  \<open>class PackageNotFoundError\<close>: the constructor builds the message
  \<open>`Package not found: ${packageName}@${version}, ${cause?.message}`\<close>; an absent cause
  renders as \<open>undefined\<close>.
\<close>

fun message :: "error \<Rightarrow> string" where
  "message (Error m) = m"
| "message (TypeError m) = m"
| "message (PackageNotFoundError packageName version None) =
     ''Package not found: '' @ packageName @ ''@'' @ version @ '', undefined''"
| "message (PackageNotFoundError packageName version (Some c)) =
     ''Package not found: '' @ packageName @ ''@'' @ version @ '', '' @ message c"

fun cause :: "error \<Rightarrow> error option" where
  "cause (Error m) = None"
| "cause (TypeError m) = None"
| "cause (PackageNotFoundError packageName version c) = c"

text \<open>\<open>error instanceof Error ? error : new Error(String(error))\<close>\<close>

fun asError :: "thrown \<Rightarrow> error" where
  "asError (Thrown e) = e"
| "asError (ThrownValue s) = Error s"

text \<open>
  A computation that may throw returns \<open>thrown + 'a\<close>; \<open>andThen\<close> sequences two of them
  and lets the first exception escape.
\<close>

definition andThen :: "thrown + 'a \<Rightarrow> ('a \<Rightarrow> thrown + 'b) \<Rightarrow> thrown + 'b" where
  "andThen x f = (case x of Inl e \<Rightarrow> Inl e | Inr v \<Rightarrow> f v)"

text \<open>
  A value of type \<open>string | null\<close> used as a condition: \<open>null\<close> and the empty string are
  falsy. \<open>truthy\<close> keeps the string exactly when the condition holds.
\<close>

fun truthy :: "string option \<Rightarrow> string option" where
  "truthy None = None"
| "truthy (Some s) = (if s = [] then None else Some s)"

text \<open>\<open>a || b\<close> on such a value.\<close>

definition orElse :: "string option \<Rightarrow> string \<Rightarrow> string" where
  "orElse a b = (case truthy a of Some s \<Rightarrow> s | None \<Rightarrow> b)"

text \<open>
  A JavaScript \<open>Map\<close> that the code iterates is an association list in insertion order:
  \<open>m.get(k)\<close> is \<open>map_of m k\<close>, \<open>m.has(k)\<close> is \<open>map_of m k \<noteq> None\<close>, and \<open>m.set(k, v)\<close> is
  \<open>AList.update k v m\<close> (the value is replaced in place when the key is present, and the
  entry is appended otherwise). \<open>new Map(entries)\<close> sets the entries one after the other.
  A \<open>Map\<close> that is only read by key, or whose iteration order depends on the scheduling
  of promises, is a partial function \<open>string \<rightharpoonup> 'v\<close>.
\<close>

definition newMap :: "(string \<times> 'v) list \<Rightarrow> (string \<times> 'v) list" where
  "newMap entries = fold (\<lambda>(k, v) m. AList.update k v m) entries []"

section \<open>The semver library\<close>

text \<open>
  The npm package \<open>semver\<close> is imported, not part of the repository. The four functions the
  analyzer calls are therefore parameters of the model. Each of them may throw, since the
  analyzer guards some of the calls with \<open>try\<close>; \<open>null\<close> is \<open>None\<close>.
\<close>

record semver_lib =
  valid :: "string \<Rightarrow> thrown + string option"
  validRange :: "string \<Rightarrow> thrown + string option"
  satisfies :: "string \<Rightarrow> string \<Rightarrow> thrown + bool"
  maxSatisfying :: "string list \<Rightarrow> string \<Rightarrow> thrown + string option"

section \<open>Data model\<close>

datatype DependencyNode =
  DependencyNode
    (dn_name: string)
    (dn_version: string)
    (dn_dependencies: "(string \<times> DependencyNode) list")
    (dn_peerDependencies: "(string \<times> string) list")

record HoistedDependency =
  hd_name :: string
  hd_version :: string
  hd_dependencies :: "(string \<times> string) list"
  hd_peerDependencies :: "(string \<times> string) list"
  hd_parent :: "string option"

record HoistedTree =
  root :: "(string \<times> HoistedDependency) list"
  nested :: "(string \<times> (string \<times> HoistedDependency) list) list"

section \<open>The hoist planner: \<open>convertToHoistedTree\<close>\<close>

text \<open>
  The helpers of \<open>convertToHoistedTree\<close> are closures over the tree under construction;
  here the tree is passed and returned.
\<close>

definition convertToHoistedDep :: "DependencyNode \<Rightarrow> string option \<Rightarrow> HoistedDependency" where
  "convertToHoistedDep node parent =
     \<lparr> hd_name = dn_name node,
       hd_version = dn_version node,
       hd_dependencies = newMap (map (\<lambda>(name, dep). (name, dn_version dep)) (dn_dependencies node)),
       hd_peerDependencies = newMap (dn_peerDependencies node),
       hd_parent = parent \<rparr>"

text \<open>The body of the \<open>try\<close> block of \<open>hasVersionConflict\<close>.\<close>

definition versionRangesConflict :: "semver_lib \<Rightarrow> string \<Rightarrow> string \<Rightarrow> thrown + bool" where
  "versionRangesConflict semver v1 v2 =
     andThen (validRange semver v1) (\<lambda>r1.
     andThen (validRange semver v2) (\<lambda>r2.
     andThen (valid semver v1) (\<lambda>version1.
     andThen (valid semver v2) (\<lambda>version2.
       let range1 = orElse r1 v1; range2 = orElse r2 v2 in
       (case (truthy version1, truthy version2) of
          (Some a, Some b) \<Rightarrow> Inr (a \<noteq> b)
        | (Some a, None) \<Rightarrow> andThen (satisfies semver a range2) (\<lambda>ok. Inr (\<not> ok))
        | (None, Some b) \<Rightarrow> andThen (satisfies semver b range1) (\<lambda>ok. Inr (\<not> ok))
        | (None, None) \<Rightarrow> Inr True)))))"

definition hasVersionConflict :: "semver_lib \<Rightarrow> HoistedDependency \<Rightarrow> DependencyNode \<Rightarrow> bool" where
  "hasVersionConflict semver dep1 dep2 =
     (if hd_version dep1 = dn_version dep2 then False
      else (case versionRangesConflict semver (hd_version dep1) (dn_version dep2) of
              Inl e \<Rightarrow> True
            | Inr conflict \<Rightarrow> conflict))"

text \<open>
  \<open>canBeHoisted\<close>, first loop: every package at the root that declares the candidate as a
  peer must accept the candidate's version.
\<close>

fun acceptedAsPeer ::
  "semver_lib \<Rightarrow> DependencyNode \<Rightarrow> (string \<times> HoistedDependency) list \<Rightarrow> thrown + bool" where
  "acceptedAsPeer semver dep [] = Inr True"
| "acceptedAsPeer semver dep ((name, hoistedDep) # rest) =
     (case map_of (hd_peerDependencies hoistedDep) (dn_name dep) of
        None \<Rightarrow> acceptedAsPeer semver dep rest
      | Some requiredVersion \<Rightarrow>
          andThen (satisfies semver (dn_version dep) requiredVersion) (\<lambda>ok.
            if \<not> ok then Inr False else acceptedAsPeer semver dep rest))"

text \<open>
  \<open>canBeHoisted\<close>, second loop: every peer the candidate declares that is already at the
  root must have a version in the declared range.
\<close>

fun ownPeersSatisfied ::
  "semver_lib \<Rightarrow> (string \<times> HoistedDependency) list \<Rightarrow> (string \<times> string) list \<Rightarrow> thrown + bool" where
  "ownPeersSatisfied semver rt [] = Inr True"
| "ownPeersSatisfied semver rt ((peerName, peerVersion) # rest) =
     (case map_of rt peerName of
        None \<Rightarrow> ownPeersSatisfied semver rt rest
      | Some hoistedPeer \<Rightarrow>
          andThen (satisfies semver (hd_version hoistedPeer) peerVersion) (\<lambda>ok.
            if \<not> ok then Inr False else ownPeersSatisfied semver rt rest))"

definition canBeHoisted :: "semver_lib \<Rightarrow> HoistedTree \<Rightarrow> DependencyNode \<Rightarrow> thrown + bool" where
  "canBeHoisted semver hoistedTree dep =
     andThen (acceptedAsPeer semver dep (root hoistedTree)) (\<lambda>accepted.
       if \<not> accepted then Inr False
       else ownPeersSatisfied semver (root hoistedTree) (dn_peerDependencies dep))"

text \<open>
  The two identical blocks of \<open>processNode\<close> that put a node under its parent path:
  create the bucket when it is missing, then set the entry.
\<close>

definition nestUnder :: "string \<Rightarrow> DependencyNode \<Rightarrow> HoistedTree \<Rightarrow> HoistedTree" where
  "nestUnder parentPath node hoistedTree =
     (let bucket = (case map_of (nested hoistedTree) parentPath of None \<Rightarrow> [] | Some b \<Rightarrow> b)
      in hoistedTree
           \<lparr> nested :=
               AList.update parentPath
                 (AList.update (dn_name node) (convertToHoistedDep node (Some parentPath)) bucket)
                 (nested hoistedTree) \<rparr>)"

text \<open>
  The placement decision of \<open>processNode\<close> for a node that is not the logical root
  (the part between the \<open>isRoot\<close> branch and the loop over the node's dependencies).
\<close>

definition placeNode ::
  "semver_lib \<Rightarrow> DependencyNode \<Rightarrow> string \<Rightarrow> HoistedTree \<Rightarrow> thrown + HoistedTree" where
  "placeNode semver node parentPath hoistedTree =
     (case map_of (root hoistedTree) (dn_name node) of
        None \<Rightarrow>
          andThen (canBeHoisted semver hoistedTree node) (\<lambda>can.
            if can
            then Inr (hoistedTree
                        \<lparr> root := AList.update (dn_name node) (convertToHoistedDep node None)
                                    (root hoistedTree) \<rparr>)
            else Inr (nestUnder parentPath node hoistedTree))
      | Some existingDep \<Rightarrow>
          if hasVersionConflict semver existingDep node
          then Inr (nestUnder parentPath node hoistedTree)
          else andThen (canBeHoisted semver hoistedTree node) (\<lambda>can.
                 if \<not> can then Inr (nestUnder parentPath node hoistedTree)
                 else Inr hoistedTree))"

fun processNode ::
  "semver_lib \<Rightarrow> DependencyNode \<Rightarrow> string \<Rightarrow> bool \<Rightarrow> HoistedTree \<Rightarrow> thrown + HoistedTree"
and processDependencies ::
  "semver_lib \<Rightarrow> (string \<times> DependencyNode) list \<Rightarrow> string \<Rightarrow> HoistedTree \<Rightarrow> thrown + HoistedTree"
where
  "processNode semver (DependencyNode name version deps peers) parentPath isRoot hoistedTree =
     (if isRoot
      then processDependencies semver deps (name @ ''@'' @ version)
             (hoistedTree
                \<lparr> root := AList.update name
                            (convertToHoistedDep (DependencyNode name version deps peers) None)
                            (root hoistedTree) \<rparr>)
      else andThen (placeNode semver (DependencyNode name version deps peers) parentPath hoistedTree)
             (processDependencies semver deps (name @ ''@'' @ version)))"
| "processDependencies semver [] parentPath hoistedTree = Inr hoistedTree"
| "processDependencies semver ((depName, depNode) # rest) parentPath hoistedTree =
     andThen (processNode semver depNode parentPath False hoistedTree)
       (processDependencies semver rest parentPath)"

definition convertToHoistedTree :: "semver_lib \<Rightarrow> DependencyNode \<Rightarrow> thrown + HoistedTree" where
  "convertToHoistedTree semver node =
     processNode semver node [] True \<lparr> root = [], nested = [] \<rparr>"

section \<open>Registry documents\<close>

text \<open>
  The body of a registry response, after \<open>json()\<close>: an object whose \<open>versions\<close> member, when
  present, maps version strings to per-version records, and whose \<open>dist-tags\<close> member, when
  present, maps tag names to strings. A member that is absent is \<open>None\<close>. The members of a
  JSON object are listed in the order \<open>Object.entries\<close> and \<open>Object.keys\<close> return them.
  Only the members of the document itself are modelled: a lookup such as
  \<open>versions['constructor']\<close>, which JavaScript answers from \<open>Object.prototype\<close>, is a miss
  here.
\<close>

record VersionRecord =
  vr_name :: string
  vr_dependencies :: "(string \<times> string) list option"
  vr_devDependencies :: "(string \<times> string) list option"
  vr_peerDependencies :: "(string \<times> string) list option"

record Metadata =
  md_versions :: "(string \<times> VersionRecord) list option"
  md_dist_tags :: "(string \<times> string) list option"

text \<open>
  What \<open>fetch\<close> and \<open>json()\<close> can do: the request is rejected (no connection, or the
  timeout signal aborts it), or a response arrives with its \<open>ok\<close> flag and a body that
  either fails to parse or is a document.
\<close>

datatype body =
    Unparseable thrown
  | Document Metadata

datatype response =
    Rejected thrown
  | Response bool body

record PackageInfo =
  pi_name :: string
  pi_version :: string
  pi_dependencies :: "(string \<times> string) list"
  pi_devDependencies :: "(string \<times> string) list"
  pi_peerDependencies :: "(string \<times> string) list"

record FlatDependency =
  fd_name :: string
  fd_version :: string
  fd_requiredBy :: "string set"

section \<open>The analyzer\<close>

text \<open>
  What a call reads and does not change: the semver library, the configured registry URL
  (\<open>this.config.registry\<close>) and the registry itself, a fixed answer for every URL. Request
  headers and the timeout value reach the model only through that answer.
\<close>

record setting =
  semverLib :: semver_lib
  registry :: string
  fetch :: "string \<Rightarrow> response"

text \<open>
  What a call changes: the cache of the analyzer object. \<open>requests\<close> is not a field of the
  class; it records the URL of every \<open>fetch\<close> issued so far, so that the number of registry
  requests can be stated.
\<close>

record Analyzer =
  packageCache :: "string \<rightharpoonup> PackageInfo"
  requests :: "string list"

definition defaultRegistry :: string where
  "defaultRegistry = ''https://registry.npmjs.org''"

text \<open>The constructor: \<open>registry: config.registry || this.defaultRegistry\<close>, and an empty cache.\<close>

definition configuredRegistry :: "string option \<Rightarrow> string" where
  "configuredRegistry configRegistry = orElse configRegistry defaultRegistry"

definition newAnalyzer :: Analyzer where
  "newAnalyzer = \<lparr> packageCache = Map.empty, requests = [] \<rparr>"

subsection \<open>\<open>getPackageInfo\<close>\<close>

text \<open>Finding the exact version or the best matching version.\<close>

definition matchVersion :: "semver_lib \<Rightarrow> Metadata \<Rightarrow> string \<Rightarrow> thrown + string option" where
  "matchVersion semver metadata version =
     (let versions = (case md_versions metadata of None \<Rightarrow> [] | Some vs \<Rightarrow> vs) in
      if map_of versions version \<noteq> None then Inr (Some version)
      else (case (case md_dist_tags metadata of
                    None \<Rightarrow> None
                  | Some tags \<Rightarrow> truthy (map_of tags version)) of
              Some tagged \<Rightarrow> Inr (Some tagged)
            | None \<Rightarrow>
                andThen (validRange semver version) (\<lambda>range.
                  case truthy range of
                    Some r \<Rightarrow> maxSatisfying semver (map fst versions) version
                  | None \<Rightarrow> Inr None)))"

text \<open>
  Reading \<open>metadata.versions[matchedVersion]\<close> and its members: a \<open>TypeError\<close> when
  \<open>metadata.versions\<close> or the record is \<open>undefined\<close>.
\<close>

definition packageInfoOf :: "Metadata \<Rightarrow> string \<Rightarrow> thrown + PackageInfo" where
  "packageInfoOf metadata matchedVersion =
     (case md_versions metadata of
        None \<Rightarrow>
          Inl (Thrown (TypeError
            (''Cannot read properties of undefined (reading '' @ [CHR 0x27] @ matchedVersion
               @ [CHR 0x27] @ '')'')))
      | Some versions \<Rightarrow>
          (case map_of versions matchedVersion of
             None \<Rightarrow>
               Inl (Thrown (TypeError
                 (''Cannot read properties of undefined (reading '' @ [CHR 0x27] @ ''name''
                    @ [CHR 0x27] @ '')'')))
           | Some r \<Rightarrow>
               Inr \<lparr> pi_name = vr_name r,
                     pi_version = matchedVersion,
                     pi_dependencies = (case vr_dependencies r of None \<Rightarrow> [] | Some d \<Rightarrow> d),
                     pi_devDependencies = (case vr_devDependencies r of None \<Rightarrow> [] | Some d \<Rightarrow> d),
                     pi_peerDependencies =
                       (case vr_peerDependencies r of None \<Rightarrow> [] | Some d \<Rightarrow> d) \<rparr>))"

text \<open>The \<open>try\<close> block, from the moment the promise of \<open>fetch\<close> settles.\<close>

definition resolveResponse ::
  "semver_lib \<Rightarrow> string \<Rightarrow> string \<Rightarrow> response \<Rightarrow> thrown + PackageInfo" where
  "resolveResponse semver name version metadataResponse =
     (case metadataResponse of
        Rejected t \<Rightarrow> Inl t
      | Response ok b \<Rightarrow>
          if \<not> ok then Inl (Thrown (PackageNotFoundError name version None))
          else (case b of
                  Unparseable t \<Rightarrow> Inl t
                | Document metadata \<Rightarrow>
                    andThen (matchVersion semver metadata version) (\<lambda>matchedVersion.
                      case truthy matchedVersion of
                        None \<Rightarrow>
                          Inl (Thrown (PackageNotFoundError name version
                                 (Some (Error ''No matching version found''))))
                      | Some v \<Rightarrow> packageInfoOf metadata v)))"

text \<open>
  \<open>getPackageInfo\<close> suspends once, at \<open>await fetch(...)\<close>. The part before it looks the key
  up and, on a miss, issues the request; the part after it runs when the response is there.
\<close>

datatype lookup =
    Cached PackageInfo
  | Awaiting string

definition cacheKey :: "string \<Rightarrow> string \<Rightarrow> string" where
  "cacheKey name version = name @ ''@'' @ version"

definition requestUrl :: "setting \<Rightarrow> string \<Rightarrow> string" where
  "requestUrl s name = registry s @ ''/'' @ name"

definition getPackageInfo_request ::
  "setting \<Rightarrow> string \<Rightarrow> string \<Rightarrow> Analyzer \<Rightarrow> lookup \<times> Analyzer" where
  "getPackageInfo_request s name version a =
     (case packageCache a (cacheKey name version) of
        Some packageInfo \<Rightarrow> (Cached packageInfo, a)
      | None \<Rightarrow>
          (Awaiting (requestUrl s name),
           a \<lparr> requests := requests a @ [requestUrl s name] \<rparr>))"

definition getPackageInfo_resume ::
  "setting \<Rightarrow> string \<Rightarrow> string \<Rightarrow> response \<Rightarrow> Analyzer \<Rightarrow> (thrown + PackageInfo) \<times> Analyzer" where
  "getPackageInfo_resume s name version metadataResponse a =
     (case resolveResponse (semverLib s) name version metadataResponse of
        Inl t \<Rightarrow> (Inl (Thrown (PackageNotFoundError name version (Some (asError t)))), a)
      | Inr packageInfo \<Rightarrow>
          (Inr packageInfo,
           a \<lparr> packageCache := (packageCache a)(cacheKey name version \<mapsto> packageInfo) \<rparr>))"

text \<open>A resolution that nothing interleaves with.\<close>

definition getPackageInfo ::
  "setting \<Rightarrow> string \<Rightarrow> string \<Rightarrow> Analyzer \<Rightarrow> (thrown + PackageInfo) \<times> Analyzer" where
  "getPackageInfo s name version a =
     (case getPackageInfo_request s name version a of
        (Cached packageInfo, a') \<Rightarrow> (Inr packageInfo, a')
      | (Awaiting url, a') \<Rightarrow> getPackageInfo_resume s name version (fetch s url) a')"

subsection \<open>\<open>buildDependencyTree\<close>\<close>

definition currentPath :: "string \<Rightarrow> string \<Rightarrow> string \<Rightarrow> string" where
  "currentPath parentPath name version =
     (if parentPath \<noteq> [] then parentPath @ '' > '' @ name @ ''@'' @ version
      else name @ ''@'' @ version)"

definition addFlatDependency ::
  "string \<Rightarrow> string \<Rightarrow> string \<Rightarrow> (string \<rightharpoonup> FlatDependency) \<Rightarrow> (string \<rightharpoonup> FlatDependency)" where
  "addFlatDependency name version parentPath flatDeps =
     (let key = name @ ''@'' @ version;
          requiredBy = (if parentPath \<noteq> [] then parentPath else ''root'')
      in case flatDeps key of
           None \<Rightarrow>
             flatDeps(key \<mapsto> \<lparr> fd_name = name, fd_version = version, fd_requiredBy = {requiredBy} \<rparr>)
         | Some entry \<Rightarrow>
             flatDeps(key \<mapsto> entry \<lparr> fd_requiredBy := insert requiredBy (fd_requiredBy entry) \<rparr>))"

text \<open>
  The recursion of \<open>buildDependencyTree\<close> has no bound of its own, so the model carries
  fuel: the number of nested calls still allowed. \<open>None\<close> means that the call did not
  return within that depth. The children of a node are built by \<open>Promise.all\<close>; the model
  builds them one after the other in the order of \<open>Object.entries\<close>, which is the order of
  the resulting \<open>dependencies\<close> map. For a registry with fixed answers the tree, the content
  of the flat index and the content of the cache of a build that succeeds do not depend on
  how the promises interleave; the order of the requests, and which of several failures
  is reported, do. After the failure of a child the model stops, while the promises of the
  other children run on; what they still add to the cache is not modelled.
\<close>

fun buildDependencyTree ::
  "nat \<Rightarrow> setting \<Rightarrow> string \<Rightarrow> string \<Rightarrow> string
     \<Rightarrow> (string \<rightharpoonup> FlatDependency) \<times> Analyzer
     \<Rightarrow> ((thrown + DependencyNode) \<times> (string \<rightharpoonup> FlatDependency) \<times> Analyzer) option"
and buildDependencies ::
  "nat \<Rightarrow> setting \<Rightarrow> (string \<times> string) list \<Rightarrow> string
     \<Rightarrow> (string \<rightharpoonup> FlatDependency) \<times> Analyzer
     \<Rightarrow> ((thrown + (string \<times> DependencyNode) list) \<times> (string \<rightharpoonup> FlatDependency) \<times> Analyzer) option"
where
  "buildDependencyTree 0 s name version parentPath st = None"
| "buildDependencyTree (Suc fuel) s name version parentPath (flatDeps, a) =
     (case getPackageInfo s name version a of
        (Inl e, a1) \<Rightarrow> Some (Inl e, flatDeps, a1)
      | (Inr packageInfo, a1) \<Rightarrow>
          (case buildDependencies fuel s (pi_dependencies packageInfo)
                  (currentPath parentPath name (pi_version packageInfo))
                  (addFlatDependency name (pi_version packageInfo) parentPath flatDeps, a1) of
             None \<Rightarrow> None
           | Some (Inl e, st2) \<Rightarrow> Some (Inl e, st2)
           | Some (Inr results, st2) \<Rightarrow>
               Some (Inr (DependencyNode name (pi_version packageInfo) (newMap results)
                            (newMap (pi_peerDependencies packageInfo))),
                     st2)))"
| "buildDependencies fuel s [] path st = Some (Inr [], st)"
| "buildDependencies fuel s ((depName, depVersion) # rest) path st =
     (case buildDependencyTree fuel s depName depVersion path st of
        None \<Rightarrow> None
      | Some (Inl e, st1) \<Rightarrow> Some (Inl e, st1)
      | Some (Inr depNode, st1) \<Rightarrow>
          (case buildDependencies fuel s rest path st1 of
             None \<Rightarrow> None
           | Some (Inl e, st2) \<Rightarrow> Some (Inl e, st2)
           | Some (Inr results, st2) \<Rightarrow> Some (Inr ((depName, depNode) # results), st2)))"

subsection \<open>\<open>analyzeSingle\<close> and \<open>analyzeMultiple\<close>\<close>

text \<open>
  The public method \<open>analyze\<close> only dispatches: to \<open>analyzeMultiple\<close> for an array, to
  \<open>analyzeSingle\<close> for a name and a non-empty version.
\<close>

record AnalysisResult =
  dependencyTree :: DependencyNode
  hoistedTree :: HoistedTree
  flatDependencies :: "string \<rightharpoonup> FlatDependency"

record PackageRequest =
  pr_name :: string
  pr_version :: string

text \<open>\<open>combined.hoistedTree\<close> and \<open>combined.flatDependencies\<close> are two fields of the record.\<close>

record MultiPackageAnalysisResult =
  individual :: "(string \<times> AnalysisResult) list"
  combined_hoistedTree :: HoistedTree
  combined_flatDependencies :: "string \<rightharpoonup> FlatDependency"

definition analyzeSingle ::
  "nat \<Rightarrow> setting \<Rightarrow> string \<Rightarrow> string \<Rightarrow> Analyzer
     \<Rightarrow> ((thrown + AnalysisResult) \<times> Analyzer) option" where
  "analyzeSingle fuel s packageName version a =
     (case buildDependencyTree fuel s packageName version [] (Map.empty, a) of
        None \<Rightarrow> None
      | Some (Inl e, flatDeps, a1) \<Rightarrow> Some (Inl e, a1)
      | Some (Inr tree, flatDeps, a1) \<Rightarrow>
          (case convertToHoistedTree (semverLib s) tree of
             Inl e \<Rightarrow> Some (Inl e, a1)
           | Inr hoisted \<Rightarrow>
               Some (Inr \<lparr> dependencyTree = tree, hoistedTree = hoisted,
                           flatDependencies = flatDeps \<rparr>,
                     a1)))"

text \<open>The first loop of \<open>analyzeMultiple\<close>: one package after the other.\<close>

fun analyzeEach ::
  "nat \<Rightarrow> setting \<Rightarrow> PackageRequest list \<Rightarrow> (string \<times> AnalysisResult) list \<Rightarrow> Analyzer
     \<Rightarrow> ((thrown + (string \<times> AnalysisResult) list) \<times> Analyzer) option" where
  "analyzeEach fuel s [] analyzed a = Some (Inr analyzed, a)"
| "analyzeEach fuel s (pkg # rest) analyzed a =
     (case analyzeSingle fuel s (pr_name pkg) (pr_version pkg) a of
        None \<Rightarrow> None
      | Some (Inl e, a1) \<Rightarrow> Some (Inl e, a1)
      | Some (Inr result, a1) \<Rightarrow>
          analyzeEach fuel s rest
            (AList.update (pr_name pkg @ ''@'' @ pr_version pkg) result analyzed) a1)"

text \<open>
  Merging one flat index into the combined one: an entry is copied when its key is new,
  and its \<open>requiredBy\<close> set is added to the existing entry otherwise.
\<close>

definition mergeFlatDependencies ::
  "(string \<rightharpoonup> FlatDependency) \<Rightarrow> (string \<rightharpoonup> FlatDependency) \<Rightarrow> (string \<rightharpoonup> FlatDependency)" where
  "mergeFlatDependencies combinedFlatDeps flatDeps =
     (\<lambda>key. case flatDeps key of
               None \<Rightarrow> combinedFlatDeps key
             | Some dep \<Rightarrow>
                 (case combinedFlatDeps key of
                    None \<Rightarrow>
                      Some \<lparr> fd_name = fd_name dep, fd_version = fd_version dep,
                             fd_requiredBy = fd_requiredBy dep \<rparr>
                  | Some entry \<Rightarrow>
                      Some (entry \<lparr> fd_requiredBy := fd_requiredBy entry \<union> fd_requiredBy dep \<rparr>)))"

definition virtualRoot :: "(string \<times> AnalysisResult) list \<Rightarrow> DependencyNode" where
  "virtualRoot analyzed =
     DependencyNode ''virtual-root'' ''0.0.0''
       (fold (\<lambda>(pkgKey, result) m. AList.update pkgKey (dependencyTree result) m) analyzed [])
       []"

definition analyzeMultiple ::
  "nat \<Rightarrow> setting \<Rightarrow> PackageRequest list \<Rightarrow> Analyzer
     \<Rightarrow> ((thrown + MultiPackageAnalysisResult) \<times> Analyzer) option" where
  "analyzeMultiple fuel s packages a =
     (case analyzeEach fuel s packages [] a of
        None \<Rightarrow> None
      | Some (Inl e, a1) \<Rightarrow> Some (Inl e, a1)
      | Some (Inr analyzed, a1) \<Rightarrow>
          (let combinedFlatDeps =
                 fold (\<lambda>(pkgKey, result) combined.
                         mergeFlatDependencies combined (flatDependencies result))
                   analyzed Map.empty
           in case convertToHoistedTree (semverLib s) (virtualRoot analyzed) of
                Inl e \<Rightarrow> Some (Inl e, a1)
              | Inr combinedHoistedTree \<Rightarrow>
                  Some (Inr \<lparr> individual = analyzed,
                              combined_hoistedTree = combinedHoistedTree,
                              combined_flatDependencies = combinedFlatDeps \<rparr>,
                        a1)))"

section \<open>Notions used by the properties\<close>

text \<open>
  A version string \<open>parses as the concrete version a\<close> when \<open>semver.valid\<close> returns the
  truthy string \<open>a\<close>, and \<open>is the range r\<close> when \<open>semver.validRange\<close> returns the truthy
  string \<open>r\<close>. Parsing a string throws when one of the two calls does.
\<close>

definition parseThrows :: "semver_lib \<Rightarrow> string \<Rightarrow> bool" where
  "parseThrows semver v = (isl (validRange semver v) \<or> isl (valid semver v))"

definition concreteVersion :: "semver_lib \<Rightarrow> string \<Rightarrow> string option" where
  "concreteVersion semver v = (case valid semver v of Inl e \<Rightarrow> None | Inr x \<Rightarrow> truthy x)"

definition rangeOf :: "semver_lib \<Rightarrow> string \<Rightarrow> string option" where
  "rangeOf semver v = (case validRange semver v of Inl e \<Rightarrow> None | Inr x \<Rightarrow> truthy x)"

text \<open>
  The candidate's name is at the root with a version that conflicts with the candidate's;
  and the candidate is recorded under a parent path.
\<close>

definition conflictsAtRoot :: "semver_lib \<Rightarrow> HoistedTree \<Rightarrow> DependencyNode \<Rightarrow> bool" where
  "conflictsAtRoot semver t d =
     (case map_of (root t) (dn_name d) of
        None \<Rightarrow> False
      | Some existingDep \<Rightarrow> hasVersionConflict semver existingDep d)"

definition nestedAt :: "HoistedTree \<Rightarrow> string \<Rightarrow> DependencyNode \<Rightarrow> bool" where
  "nestedAt t parentPath d =
     (case map_of (nested t) parentPath of
        None \<Rightarrow> False
      | Some bucket \<Rightarrow>
          map_of bucket (dn_name d) = Some (convertToHoistedDep d (Some parentPath)))"

text \<open>
  The invariant of the root level: every entry is filed under its own name, and a peer
  that an entry declares on another name is satisfied by the entry of that name, if there
  is one.
\<close>

definition peersHold :: "semver_lib \<Rightarrow> (string \<times> HoistedDependency) list \<Rightarrow> bool" where
  "peersHold semver rt \<longleftrightarrow>
     (\<forall>rn r. map_of rt rn = Some r \<longrightarrow>
        hd_name r = rn \<and>
        (\<forall>pn pr p.
           map_of (hd_peerDependencies r) pn = Some pr \<and> pn \<noteq> rn \<and> map_of rt pn = Some p
           \<longrightarrow> satisfies semver (hd_version p) pr = Inr True))"

text \<open>
  Why a resolution that has to ask the registry fails, read off the registry's answer:
  the request is rejected; the status is not 2xx; the body does not parse; a call of the
  semver library throws; nothing is selected from \<open>versions\<close>, \<open>dist-tags\<close> or range
  satisfaction; or a version is selected for which \<open>versions\<close> holds no record.
\<close>

datatype failure =
    TransportFailure
  | StatusNotOk
  | BodyUnparseable
  | LibraryThrows
  | NoMatchingVersion
  | RecordMissing

definition failureOf :: "setting \<Rightarrow> string \<Rightarrow> string \<Rightarrow> failure option" where
  "failureOf s name version =
     (case fetch s (requestUrl s name) of
        Rejected t \<Rightarrow> Some TransportFailure
      | Response ok b \<Rightarrow>
          if \<not> ok then Some StatusNotOk
          else (case b of
                  Unparseable t \<Rightarrow> Some BodyUnparseable
                | Document metadata \<Rightarrow>
                    (case matchVersion (semverLib s) metadata version of
                       Inl t \<Rightarrow> Some LibraryThrows
                     | Inr selected \<Rightarrow>
                         (case truthy selected of
                            None \<Rightarrow> Some NoMatchingVersion
                          | Some v \<Rightarrow>
                              (case md_versions metadata of
                                 None \<Rightarrow> Some RecordMissing
                               | Some versions \<Rightarrow>
                                   if map_of versions v = None then Some RecordMissing
                                   else None)))))"

text \<open>
  The occurrences of \<open>(name, version)\<close> pairs in a logical tree, each with the parent path
  it was built with: the root of the tree with the given path, a child with the current
  path of its parent.
\<close>

fun occurrences :: "string \<Rightarrow> DependencyNode \<Rightarrow> (string \<times> string \<times> string) list" where
  "occurrences parentPath (DependencyNode name version deps peers) =
     (name, version, parentPath)
       # concat (map (\<lambda>(depName, depNode). occurrences (currentPath parentPath name version) depNode) deps)"

text \<open>
  An occurrence is recorded in a flat index when the index has an entry under
  \<open>name@version\<close> whose \<open>requiredBy\<close> set holds the parent path, or \<open>root\<close> for the empty
  path.
\<close>

definition recordedIn :: "(string \<rightharpoonup> FlatDependency) \<Rightarrow> string \<times> string \<times> string \<Rightarrow> bool" where
  "recordedIn flatDeps occ =
     (case occ of (name, version, parentPath) \<Rightarrow>
        (case flatDeps (name @ ''@'' @ version) of
           None \<Rightarrow> False
         | Some entry \<Rightarrow> (if parentPath = [] then ''root'' else parentPath) \<in> fd_requiredBy entry))"

text \<open>
  What a build does to its state: the flat index keeps its entries and their \<open>requiredBy\<close>
  sets grow, the cache keeps its entries, and a cache that holds only resolutions of the
  registry's answers stays such.
\<close>

definition flatLe :: "(string \<rightharpoonup> FlatDependency) \<Rightarrow> (string \<rightharpoonup> FlatDependency) \<Rightarrow> bool" where
  "flatLe f g \<longleftrightarrow> (\<forall>k e. f k = Some e \<longrightarrow> (\<exists>e'. g k = Some e' \<and> fd_requiredBy e \<subseteq> fd_requiredBy e'))"

definition cacheFrom :: "setting \<Rightarrow> Analyzer \<Rightarrow> bool" where
  "cacheFrom s a \<longleftrightarrow>
     (\<forall>key packageInfo. packageCache a key = Some packageInfo \<longrightarrow>
        (\<exists>name version. key = cacheKey name version
           \<and> resolveResponse (semverLib s) name version (fetch s (requestUrl s name))
               = Inr packageInfo))"

definition grows ::
  "setting \<Rightarrow> (string \<rightharpoonup> FlatDependency) \<times> Analyzer \<Rightarrow> (string \<rightharpoonup> FlatDependency) \<times> Analyzer \<Rightarrow> bool" where
  "grows s st st' \<longleftrightarrow>
     flatLe (fst st) (fst st')
     \<and> packageCache (snd st) \<subseteq>\<^sub>m packageCache (snd st')
     \<and> (cacheFrom s (snd st) \<longrightarrow> cacheFrom s (snd st'))"

section \<open>A tabulated fragment of the semver library\<close>

text \<open>
  For evaluating the model on concrete inputs: the library on the versions \<open>0.0.0\<close>,
  \<open>1.0.0\<close>, \<open>1.1.0\<close>, \<open>2.0.0\<close> and the ranges \<open>^1.0.0\<close>, \<open>^2.0.0\<close> with their canonical
  forms \<open>>=1.0.0 <2.0.0-0\<close> and \<open>>=2.0.0 <3.0.0-0\<close>. The table takes every other string for
  neither a version nor a range, as the library does with \<open>latest\<close> and
  \<open>invalid-version\<close>; the examples use no other string. On the strings they use, the table
  returns what the library returns.
\<close>

definition knownVersions :: "string list" where
  "knownVersions = [''2.0.0'', ''1.1.0'', ''1.0.0'', ''0.0.0'']"

definition inRange :: "string \<Rightarrow> string \<Rightarrow> bool" where
  "inRange v r =
     (if r = ''^1.0.0'' \<or> r = ''>=1.0.0 <2.0.0-0'' then v = ''1.0.0'' \<or> v = ''1.1.0''
      else if r = ''^2.0.0'' \<or> r = ''>=2.0.0 <3.0.0-0'' then v = ''2.0.0''
      else r \<in> set knownVersions \<and> v = r)"

definition canonicalRange :: "string \<Rightarrow> string option" where
  "canonicalRange r =
     (if r \<in> set knownVersions then Some r
      else if r = ''^1.0.0'' \<or> r = ''>=1.0.0 <2.0.0-0'' then Some ''>=1.0.0 <2.0.0-0''
      else if r = ''^2.0.0'' \<or> r = ''>=2.0.0 <3.0.0-0'' then Some ''>=2.0.0 <3.0.0-0''
      else None)"

definition semverTable :: semver_lib where
  "semverTable =
     \<lparr> valid = (\<lambda>v. Inr (if v \<in> set knownVersions then Some v else None)),
       validRange = (\<lambda>r. Inr (canonicalRange r)),
       satisfies = (\<lambda>v r. Inr (v \<in> set knownVersions \<and> inRange v r)),
       maxSatisfying = (\<lambda>vs r.
         Inr (case filter (\<lambda>v. v \<in> set vs \<and> inRange v r) knownVersions of
                [] \<Rightarrow> None
              | v # _ \<Rightarrow> Some v)) \<rparr>"

text \<open>The same library with a version parser that throws, to exercise the \<open>catch\<close> branches.\<close>

definition semverThrowing :: semver_lib where
  "semverThrowing = semverTable \<lparr> valid := (\<lambda>v. Inl (Thrown (Error ''Invalid Version''))) \<rparr>"

definition reactAtRoot :: "string \<Rightarrow> HoistedDependency" where
  "reactAtRoot v =
     \<lparr> hd_name = ''react'', hd_version = v, hd_dependencies = [], hd_peerDependencies = [],
       hd_parent = None \<rparr>"

definition reactNode :: "string \<Rightarrow> DependencyNode" where
  "reactNode v = DependencyNode ''react'' v [] []"

text \<open>A root level that holds \<open>react@1.0.0\<close> only.\<close>

definition rootWithReact :: HoistedTree where
  "rootWithReact = \<lparr> root = [(''react'', reactAtRoot ''1.0.0'')], nested = [] \<rparr>"

text \<open>An application with a plugin that declares \<open>react\<close> as a peer, and \<open>react\<close> itself.\<close>

definition pluginNode :: DependencyNode where
  "pluginNode = DependencyNode ''plugin'' ''1.0.0'' [] [(''react'', ''^1.0.0'')]"

definition appNode :: DependencyNode where
  "appNode =
     DependencyNode ''app'' ''1.0.0''
       [(''plugin'', pluginNode), (''react'', reactNode ''1.1.0'')] []"

text \<open>The root level after the plugin has been placed beside \<open>react@1.0.0\<close>.\<close>

definition rootWithPlugin :: HoistedTree where
  "rootWithPlugin =
     \<lparr> root = [(''react'', reactAtRoot ''1.0.0''),
                (''plugin'', convertToHoistedDep pluginNode None)],
       nested = [] \<rparr>"

text \<open>A package that declares a peer on its own name, in a range its version is not in.\<close>

definition selfPeerNode :: DependencyNode where
  "selfPeerNode = DependencyNode ''a'' ''1.0.0'' [] [(''a'', ''^2.0.0'')]"

definition selfPeerEntry :: HoistedDependency where
  "selfPeerEntry =
     \<lparr> hd_name = ''a'', hd_version = ''1.0.0'', hd_dependencies = [],
       hd_peerDependencies = [(''a'', ''^2.0.0'')], hd_parent = None \<rparr>"

text \<open>A registry that cannot be reached.\<close>

definition offline :: setting where
  "offline =
     \<lparr> semverLib = semverTable,
       registry = configuredRegistry None,
       fetch = (\<lambda>url. Rejected (Thrown (TypeError ''fetch failed''))) \<rparr>"

text \<open>What \<open>analyzeMultiple\<close> returns for no packages.\<close>

definition virtualRootEntry :: HoistedDependency where
  "virtualRootEntry =
     \<lparr> hd_name = ''virtual-root'', hd_version = ''0.0.0'', hd_dependencies = [],
       hd_peerDependencies = [], hd_parent = None \<rparr>"

definition emptyAnalysis :: MultiPackageAnalysisResult where
  "emptyAnalysis =
     \<lparr> individual = [],
       combined_hoistedTree = \<lparr> root = [(''virtual-root'', virtualRootEntry)], nested = [] \<rparr>,
       combined_flatDependencies = Map.empty \<rparr>"

text \<open>
  A small registry: \<open>app@1.0.0\<close> depends on \<open>lib@^1.0.0\<close>; \<open>lib\<close> is published in three
  versions and tagged; the tag of \<open>stale\<close> names a version that is not published. Every
  other name is unknown to the registry.
\<close>

definition appRecord :: VersionRecord where
  "appRecord =
     \<lparr> vr_name = ''app'', vr_dependencies = Some [(''lib'', ''^1.0.0'')],
       vr_devDependencies = None, vr_peerDependencies = None \<rparr>"

definition libRecord :: VersionRecord where
  "libRecord =
     \<lparr> vr_name = ''lib'', vr_dependencies = None, vr_devDependencies = None,
       vr_peerDependencies = None \<rparr>"

definition staleRecord :: VersionRecord where
  "staleRecord =
     \<lparr> vr_name = ''stale'', vr_dependencies = None, vr_devDependencies = None,
       vr_peerDependencies = None \<rparr>"

definition appDocument :: Metadata where
  "appDocument =
     \<lparr> md_versions = Some [(''1.0.0'', appRecord)],
       md_dist_tags = Some [(''latest'', ''1.0.0'')] \<rparr>"

definition libDocument :: Metadata where
  "libDocument =
     \<lparr> md_versions = Some [(''1.0.0'', libRecord), (''1.1.0'', libRecord), (''2.0.0'', libRecord)],
       md_dist_tags = Some [(''latest'', ''2.0.0'')] \<rparr>"

definition staleDocument :: Metadata where
  "staleDocument =
     \<lparr> md_versions = Some [(''1.0.0'', staleRecord)],
       md_dist_tags = Some [(''latest'', ''2.0.0'')] \<rparr>"

definition notFound :: response where
  "notFound = Response False (Document \<lparr> md_versions = None, md_dist_tags = None \<rparr>)"

definition npmAnswers :: "string \<Rightarrow> response" where
  "npmAnswers url =
     (if url = ''https://registry.npmjs.org/app'' then Response True (Document appDocument)
      else if url = ''https://registry.npmjs.org/lib'' then Response True (Document libDocument)
      else if url = ''https://registry.npmjs.org/stale'' then Response True (Document staleDocument)
      else notFound)"

definition npm :: setting where
  "npm = \<lparr> semverLib = semverTable, registry = configuredRegistry None, fetch = npmAnswers \<rparr>"

definition libInfo :: "string \<Rightarrow> PackageInfo" where
  "libInfo v =
     \<lparr> pi_name = ''lib'', pi_version = v, pi_dependencies = [], pi_devDependencies = [],
       pi_peerDependencies = [] \<rparr>"

text \<open>What building \<open>app@1.0.0\<close> against this registry with a new analyzer produces.\<close>

definition appInfo :: PackageInfo where
  "appInfo =
     \<lparr> pi_name = ''app'', pi_version = ''1.0.0'', pi_dependencies = [(''lib'', ''^1.0.0'')],
       pi_devDependencies = [], pi_peerDependencies = [] \<rparr>"

definition appTree :: DependencyNode where
  "appTree = DependencyNode ''app'' ''1.0.0'' [(''lib'', DependencyNode ''lib'' ''1.1.0'' [] [])] []"

definition appFlat :: "string \<rightharpoonup> FlatDependency" where
  "appFlat =
     [''app@1.0.0'' \<mapsto> \<lparr> fd_name = ''app'', fd_version = ''1.0.0'', fd_requiredBy = {''root''} \<rparr>,
      ''lib@1.1.0'' \<mapsto> \<lparr> fd_name = ''lib'', fd_version = ''1.1.0'', fd_requiredBy = {''app@1.0.0''} \<rparr>]"

definition appAnalyzer :: Analyzer where
  "appAnalyzer =
     \<lparr> packageCache = [''app@1.0.0'' \<mapsto> appInfo, ''lib@^1.0.0'' \<mapsto> libInfo ''1.1.0''],
       requests = [''https://registry.npmjs.org/app'', ''https://registry.npmjs.org/lib''] \<rparr>"

text \<open>A rank for the keys of this registry: \<open>app\<close> above everything else.\<close>

definition npmRank :: "string \<Rightarrow> nat" where
  "npmRank key = (if take 4 key = ''app@'' then 1 else 0)"

text \<open>A registry whose declarations form a cycle: \<open>ping@1.0.0\<close> depends on \<open>pong@1.0.0\<close> and back.\<close>

definition pingDocument :: Metadata where
  "pingDocument =
     \<lparr> md_versions =
         Some [(''1.0.0'',
                \<lparr> vr_name = ''ping'', vr_dependencies = Some [(''pong'', ''1.0.0'')],
                  vr_devDependencies = None, vr_peerDependencies = None \<rparr>)],
       md_dist_tags = Some [(''latest'', ''1.0.0'')] \<rparr>"

definition pongDocument :: Metadata where
  "pongDocument =
     \<lparr> md_versions =
         Some [(''1.0.0'',
                \<lparr> vr_name = ''pong'', vr_dependencies = Some [(''ping'', ''1.0.0'')],
                  vr_devDependencies = None, vr_peerDependencies = None \<rparr>)],
       md_dist_tags = Some [(''latest'', ''1.0.0'')] \<rparr>"

definition cyclicAnswers :: "string \<Rightarrow> response" where
  "cyclicAnswers url =
     (if url = ''https://registry.npmjs.org/ping'' then Response True (Document pingDocument)
      else if url = ''https://registry.npmjs.org/pong'' then Response True (Document pongDocument)
      else notFound)"

definition cyclic :: setting where
  "cyclic =
     \<lparr> semverLib = semverTable, registry = configuredRegistry None, fetch = cyclicAnswers \<rparr>"

definition pingInfo :: PackageInfo where
  "pingInfo =
     \<lparr> pi_name = ''ping'', pi_version = ''1.0.0'', pi_dependencies = [(''pong'', ''1.0.0'')],
       pi_devDependencies = [], pi_peerDependencies = [] \<rparr>"

definition pongInfo :: PackageInfo where
  "pongInfo =
     \<lparr> pi_name = ''pong'', pi_version = ''1.0.0'', pi_dependencies = [(''ping'', ''1.0.0'')],
       pi_devDependencies = [], pi_peerDependencies = [] \<rparr>"

text \<open>A cache that holds nothing wrong about the two packages.\<close>

definition pingPongCache :: "Analyzer \<Rightarrow> bool" where
  "pingPongCache a \<longleftrightarrow>
     (case packageCache a ''ping@1.0.0'' of None \<Rightarrow> True | Some i \<Rightarrow> i = pingInfo)
     \<and> (case packageCache a ''pong@1.0.0'' of None \<Rightarrow> True | Some i \<Rightarrow> i = pongInfo)"

definition appResult :: AnalysisResult where
  "appResult =
     \<lparr> dependencyTree = appTree,
       hoistedTree =
         \<lparr> root =
             [(''app'', \<lparr> hd_name = ''app'', hd_version = ''1.0.0'',
                         hd_dependencies = [(''lib'', ''1.1.0'')], hd_peerDependencies = [],
                         hd_parent = None \<rparr>),
              (''lib'', \<lparr> hd_name = ''lib'', hd_version = ''1.1.0'', hd_dependencies = [],
                         hd_peerDependencies = [], hd_parent = None \<rparr>)],
           nested = [] \<rparr>,
       flatDependencies = appFlat \<rparr>"

text \<open>
  The analyzer after one lookup of \<open>lib@^1.0.0\<close> has started, after a second one has
  started, and after both responses have been resolved.
\<close>

definition firstAsked :: Analyzer where
  "firstAsked = \<lparr> packageCache = Map.empty, requests = [''https://registry.npmjs.org/lib''] \<rparr>"

definition bothAsked :: Analyzer where
  "bothAsked =
     \<lparr> packageCache = Map.empty,
       requests = [''https://registry.npmjs.org/lib'', ''https://registry.npmjs.org/lib''] \<rparr>"

definition bothAnswered :: Analyzer where
  "bothAnswered =
     \<lparr> packageCache = [''lib@^1.0.0'' \<mapsto> libInfo ''1.1.0''],
       requests = [''https://registry.npmjs.org/lib'', ''https://registry.npmjs.org/lib''] \<rparr>"
section \<open>Properties\<close>

subsection \<open>Evaluating the examples\<close>

lemmas semverTable_simps =
  semverTable_def semverThrowing_def knownVersions_def inRange_def canonicalRange_def
  parseThrows_def concreteVersion_def rangeOf_def

lemma truthy_Some: "truthy a = Some r \<longleftrightarrow> a = Some r \<and> r \<noteq> []"
  by (cases a) auto

lemma truthy_idem [simp]: "truthy (truthy a) = truthy a"
  by (cases a) auto

lemma orElse_truthy [simp]: "orElse (truthy a) b = orElse a b"
  by (cases a) (auto simp: orElse_def)

subsection \<open>Maps as association lists\<close>

lemma update_absent: "map_of xs k = None \<Longrightarrow> AList.update k v xs = xs @ [(k, v)]"
  by (induction xs) (auto split: if_splits)

lemma nestUnder_root [simp]: "root (nestUnder p d t) = root t"
  by (simp add: nestUnder_def Let_def)

lemma nestUnder_nestedAt: "nestedAt (nestUnder p d t) p d"
  by (simp add: nestUnder_def nestedAt_def Let_def AList.update_conv')

subsection \<open>Version resolution\<close>

text \<open>
  The order of the selection: an exact key of \<open>versions\<close> first, then a tag of
  \<open>dist-tags\<close> (also when the descriptor is a valid range), then the best version in the
  range, and nothing otherwise.
\<close>

lemma matchVersion_exact:
  assumes "md_versions metadata = Some versions" and "map_of versions version \<noteq> None"
  shows "matchVersion semver metadata version = Inr (Some version)"
  using assms by (simp add: matchVersion_def)

lemma matchVersion_tag:
  assumes "map_of (case md_versions metadata of None \<Rightarrow> [] | Some vs \<Rightarrow> vs) version = None"
    and "md_dist_tags metadata = Some tags" and "map_of tags version = Some tagged"
    and "tagged \<noteq> []"
  shows "matchVersion semver metadata version = Inr (Some tagged)"
  using assms by (simp add: matchVersion_def)

lemma matchVersion_range:
  assumes "map_of (case md_versions metadata of None \<Rightarrow> [] | Some vs \<Rightarrow> vs) version = None"
    and "(case md_dist_tags metadata of None \<Rightarrow> None | Some tags \<Rightarrow> truthy (map_of tags version))
           = None"
  shows "rangeOf semver version = Some r \<Longrightarrow>
           matchVersion semver metadata version =
             maxSatisfying semver
               (map fst (case md_versions metadata of None \<Rightarrow> [] | Some vs \<Rightarrow> vs)) version"
    and "validRange semver version = Inr x \<Longrightarrow> truthy x = None \<Longrightarrow>
           matchVersion semver metadata version = Inr None"
  using assms
  by (auto simp: matchVersion_def rangeOf_def andThen_def Let_def split: sum.splits)

lemma resolveResponse_no_match:
  assumes "matchVersion semver metadata version = Inr selected" and "truthy selected = None"
  shows "resolveResponse semver name version (Response True (Document metadata)) =
           Inl (Thrown (PackageNotFoundError name version
                  (Some (Error ''No matching version found''))))"
  using assms by (simp add: resolveResponse_def andThen_def)

lemma getPackageInfo_miss:
  assumes "packageCache a (cacheKey name version) = None"
  shows "getPackageInfo s name version a =
           getPackageInfo_resume s name version (fetch s (requestUrl s name))
             (a \<lparr> requests := requests a @ [requestUrl s name] \<rparr>)"
  using assms by (simp add: getPackageInfo_def getPackageInfo_request_def)

lemma getPackageInfo_hit:
  assumes "packageCache a (cacheKey name version) = Some packageInfo"
  shows "getPackageInfo s name version a = (Inr packageInfo, a)"
  using assms by (simp add: getPackageInfo_def getPackageInfo_request_def)

lemmas npm_simps =
  npm_def npmAnswers_def notFound_def appDocument_def libDocument_def staleDocument_def
  appRecord_def libRecord_def staleRecord_def configuredRegistry_def defaultRegistry_def
  orElse_def requestUrl_def cacheKey_def newAnalyzer_def

lemmas getPackageInfo_simps =
  getPackageInfo_def getPackageInfo_request_def getPackageInfo_resume_def resolveResponse_def
  matchVersion_def packageInfoOf_def andThen_def

text \<open>
  What reaches the caller when nothing is selected, and when the status is not 2xx: the
  \<open>PackageNotFoundError\<close> thrown inside the \<open>try\<close> block, wrapped in a second one.
\<close>

lemma getPackageInfo_no_match:
  assumes "packageCache a (cacheKey name version) = None"
    and "fetch s (requestUrl s name) = Response True (Document metadata)"
    and "matchVersion (semverLib s) metadata version = Inr selected" and "truthy selected = None"
  shows "fst (getPackageInfo s name version a) =
           Inl (Thrown (PackageNotFoundError name version
                  (Some (PackageNotFoundError name version
                     (Some (Error ''No matching version found''))))))"
  using assms(2-)
  by (simp add: getPackageInfo_miss[OF assms(1)] getPackageInfo_resume_def
        resolveResponse_no_match)

lemma getPackageInfo_not_ok:
  assumes "packageCache a (cacheKey name version) = None"
    and "fetch s (requestUrl s name) = Response False b"
  shows "fst (getPackageInfo s name version a) =
           Inl (Thrown (PackageNotFoundError name version
                  (Some (PackageNotFoundError name version None))))"
  using assms(2)
  by (simp add: getPackageInfo_miss[OF assms(1)] getPackageInfo_resume_def resolveResponse_def)

text \<open>
  Claim C1 at the input \<open>lib@invalid-version\<close>, where nothing is selected. The error
  \<open>PackageNotFoundError(name, version, new Error('No matching version found'))\<close> is thrown
  inside the \<open>try\<close> block, so the \<open>catch\<close> clause wraps it once more: the cause of the error
  that reaches the caller is the inner \<open>PackageNotFoundError\<close>, and the message of that
  cause is not \<open>No matching version found\<close>.
\<close>

theorem no_matching_version_is_wrapped_twice:
  "matchVersion semverTable libDocument ''invalid-version'' = Inr None
   \<and> fst (getPackageInfo npm ''lib'' ''invalid-version'' newAnalyzer) =
       Inl (Thrown (PackageNotFoundError ''lib'' ''invalid-version''
              (Some (PackageNotFoundError ''lib'' ''invalid-version''
                 (Some (Error ''No matching version found''))))))
   \<and> map_option message
        (cause (PackageNotFoundError ''lib'' ''invalid-version''
                  (Some (PackageNotFoundError ''lib'' ''invalid-version''
                     (Some (Error ''No matching version found''))))))
       = Some ''Package not found: lib@invalid-version, No matching version found''"
  by (simp add: getPackageInfo_simps npm_simps semverTable_simps)

subsection \<open>The version-conflict predicate\<close>

lemma rangeOf_nonempty: "rangeOf semver v = Some r \<Longrightarrow> r \<noteq> []"
  by (auto simp: rangeOf_def truthy_Some split: sum.splits)

lemma versionRangesConflict_returns:
  assumes "\<not> parseThrows semver A" "\<not> parseThrows semver B"
  shows "versionRangesConflict semver A B =
     (case (concreteVersion semver A, concreteVersion semver B) of
        (Some a, Some b) \<Rightarrow> Inr (a \<noteq> b)
      | (Some a, None) \<Rightarrow>
          andThen (satisfies semver a (orElse (rangeOf semver B) B)) (\<lambda>ok. Inr (\<not> ok))
      | (None, Some b) \<Rightarrow>
          andThen (satisfies semver b (orElse (rangeOf semver A) A)) (\<lambda>ok. Inr (\<not> ok))
      | (None, None) \<Rightarrow> Inr True)"
proof -
  from assms obtain r1 x1 r2 x2 where
    eqs: "validRange semver A = Inr r1" "valid semver A = Inr x1"
         "validRange semver B = Inr r2" "valid semver B = Inr x2"
    unfolding parseThrows_def by (metis sum.collapse(2))
  show ?thesis
    by (simp add: versionRangesConflict_def andThen_def concreteVersion_def rangeOf_def eqs
             split: option.splits)
qed

lemma hasVersionConflict_same:
  "hd_version dep1 = dn_version dep2 \<Longrightarrow> \<not> hasVersionConflict semver dep1 dep2"
  by (simp add: hasVersionConflict_def)

lemma hasVersionConflict_throws:
  assumes "hd_version dep1 \<noteq> dn_version dep2"
    and "parseThrows semver (hd_version dep1) \<or> parseThrows semver (dn_version dep2)"
  shows "hasVersionConflict semver dep1 dep2"
proof -
  have "\<exists>e. versionRangesConflict semver (hd_version dep1) (dn_version dep2) = Inl e"
    using assms(2)
    by (auto simp: parseThrows_def versionRangesConflict_def andThen_def isl_def split: sum.splits)
  then show ?thesis using assms(1) by (auto simp: hasVersionConflict_def)
qed

lemma hasVersionConflict_returns:
  assumes "hd_version dep1 \<noteq> dn_version dep2"
    and "\<not> parseThrows semver (hd_version dep1)" "\<not> parseThrows semver (dn_version dep2)"
  shows "hasVersionConflict semver dep1 dep2 =
     (case (concreteVersion semver (hd_version dep1), concreteVersion semver (dn_version dep2)) of
        (Some a, Some b) \<Rightarrow> a \<noteq> b
      | (Some a, None) \<Rightarrow>
          satisfies semver a (orElse (rangeOf semver (dn_version dep2)) (dn_version dep2)) \<noteq> Inr True
      | (None, Some b) \<Rightarrow>
          satisfies semver b (orElse (rangeOf semver (hd_version dep1)) (hd_version dep1)) \<noteq> Inr True
      | (None, None) \<Rightarrow> True)"
  using assms(1)
  by (auto simp: hasVersionConflict_def versionRangesConflict_returns[OF assms(2,3)] andThen_def
           split: option.splits sum.splits)

text \<open>
  Claim C2. For a root entry \<open>dep1\<close> with version \<open>A\<close> and a candidate \<open>dep2\<close> with version
  \<open>B\<close>: there is no conflict when \<open>A\<close> and \<open>B\<close> are the same string. Otherwise there is a
  conflict when parsing \<open>A\<close> or \<open>B\<close> throws; and when no parse throws, the conflict is
  decided as follows. If both parse as concrete versions, they conflict exactly when the
  parsed versions differ. If one parses as a concrete version and the other is a range
  and no concrete version, they conflict exactly when the library does not report that the
  concrete version satisfies the range. If neither parses as a concrete version (so in
  particular when both are ranges), they conflict.
\<close>

theorem hasVersionConflict_cases:
  "(hd_version dep1 = dn_version dep2 \<longrightarrow> \<not> hasVersionConflict semver dep1 dep2)
 \<and> (hd_version dep1 \<noteq> dn_version dep2 \<longrightarrow>
      (parseThrows semver (hd_version dep1) \<or> parseThrows semver (dn_version dep2)
         \<longrightarrow> hasVersionConflict semver dep1 dep2)
    \<and> (\<not> parseThrows semver (hd_version dep1) \<and> \<not> parseThrows semver (dn_version dep2) \<longrightarrow>
         (\<forall>a b. concreteVersion semver (hd_version dep1) = Some a
              \<and> concreteVersion semver (dn_version dep2) = Some b
            \<longrightarrow> hasVersionConflict semver dep1 dep2 = (a \<noteq> b))
       \<and> (\<forall>a r. concreteVersion semver (hd_version dep1) = Some a
              \<and> concreteVersion semver (dn_version dep2) = None
              \<and> rangeOf semver (dn_version dep2) = Some r
            \<longrightarrow> hasVersionConflict semver dep1 dep2 = (satisfies semver a r \<noteq> Inr True))
       \<and> (\<forall>b r. concreteVersion semver (hd_version dep1) = None
              \<and> rangeOf semver (hd_version dep1) = Some r
              \<and> concreteVersion semver (dn_version dep2) = Some b
            \<longrightarrow> hasVersionConflict semver dep1 dep2 = (satisfies semver b r \<noteq> Inr True))
       \<and> (concreteVersion semver (hd_version dep1) = None
              \<and> concreteVersion semver (dn_version dep2) = None
            \<longrightarrow> hasVersionConflict semver dep1 dep2)))"
proof (intro conjI impI allI)
  assume "hd_version dep1 = dn_version dep2"
  then show "\<not> hasVersionConflict semver dep1 dep2"
    by (rule hasVersionConflict_same)
next
  assume "hd_version dep1 \<noteq> dn_version dep2"
    and "parseThrows semver (hd_version dep1) \<or> parseThrows semver (dn_version dep2)"
  then show "hasVersionConflict semver dep1 dep2"
    by (rule hasVersionConflict_throws)
next
  fix a b
  assume "hd_version dep1 \<noteq> dn_version dep2"
    and "\<not> parseThrows semver (hd_version dep1) \<and> \<not> parseThrows semver (dn_version dep2)"
    and "concreteVersion semver (hd_version dep1) = Some a
       \<and> concreteVersion semver (dn_version dep2) = Some b"
  then show "hasVersionConflict semver dep1 dep2 = (a \<noteq> b)"
    by (simp add: hasVersionConflict_returns)
next
  fix a r
  assume "hd_version dep1 \<noteq> dn_version dep2"
    and "\<not> parseThrows semver (hd_version dep1) \<and> \<not> parseThrows semver (dn_version dep2)"
    and "concreteVersion semver (hd_version dep1) = Some a
       \<and> concreteVersion semver (dn_version dep2) = None
       \<and> rangeOf semver (dn_version dep2) = Some r"
  then show "hasVersionConflict semver dep1 dep2 = (satisfies semver a r \<noteq> Inr True)"
    by (auto simp: hasVersionConflict_returns orElse_def dest: rangeOf_nonempty)
next
  fix b r
  assume "hd_version dep1 \<noteq> dn_version dep2"
    and "\<not> parseThrows semver (hd_version dep1) \<and> \<not> parseThrows semver (dn_version dep2)"
    and "concreteVersion semver (hd_version dep1) = None
       \<and> rangeOf semver (hd_version dep1) = Some r
       \<and> concreteVersion semver (dn_version dep2) = Some b"
  then show "hasVersionConflict semver dep1 dep2 = (satisfies semver b r \<noteq> Inr True)"
    by (auto simp: hasVersionConflict_returns orElse_def dest: rangeOf_nonempty)
next
  assume "hd_version dep1 \<noteq> dn_version dep2"
    and "\<not> parseThrows semver (hd_version dep1) \<and> \<not> parseThrows semver (dn_version dep2)"
    and "concreteVersion semver (hd_version dep1) = None
       \<and> concreteVersion semver (dn_version dep2) = None"
  then show "hasVersionConflict semver dep1 dep2"
    by (simp add: hasVersionConflict_returns)
qed

theorem hasVersionConflict_cases_witness:
  "\<not> hasVersionConflict semverTable (reactAtRoot ''1.0.0'') (reactNode ''1.0.0'')
 \<and> hasVersionConflict semverTable (reactAtRoot ''1.0.0'') (reactNode ''2.0.0'')
 \<and> \<not> hasVersionConflict semverTable (reactAtRoot ''1.1.0'') (reactNode ''^1.0.0'')
 \<and> hasVersionConflict semverTable (reactAtRoot ''2.0.0'') (reactNode ''^1.0.0'')
 \<and> \<not> hasVersionConflict semverTable (reactAtRoot ''^1.0.0'') (reactNode ''1.1.0'')
 \<and> hasVersionConflict semverTable (reactAtRoot ''^1.0.0'') (reactNode ''^2.0.0'')
 \<and> hasVersionConflict semverThrowing (reactAtRoot ''1.0.0'') (reactNode ''2.0.0'')"
  using
    hasVersionConflict_cases[where semver = semverTable
      and ?dep1.0 = "reactAtRoot ''1.0.0''" and ?dep2.0 = "reactNode ''1.0.0''"]
    hasVersionConflict_cases[where semver = semverTable
      and ?dep1.0 = "reactAtRoot ''1.0.0''" and ?dep2.0 = "reactNode ''2.0.0''"]
    hasVersionConflict_cases[where semver = semverTable
      and ?dep1.0 = "reactAtRoot ''1.1.0''" and ?dep2.0 = "reactNode ''^1.0.0''"]
    hasVersionConflict_cases[where semver = semverTable
      and ?dep1.0 = "reactAtRoot ''2.0.0''" and ?dep2.0 = "reactNode ''^1.0.0''"]
    hasVersionConflict_cases[where semver = semverTable
      and ?dep1.0 = "reactAtRoot ''^1.0.0''" and ?dep2.0 = "reactNode ''1.1.0''"]
    hasVersionConflict_cases[where semver = semverTable
      and ?dep1.0 = "reactAtRoot ''^1.0.0''" and ?dep2.0 = "reactNode ''^2.0.0''"]
    hasVersionConflict_cases[where semver = semverThrowing
      and ?dep1.0 = "reactAtRoot ''1.0.0''" and ?dep2.0 = "reactNode ''2.0.0''"]
  by (simp add: semverTable_simps reactAtRoot_def reactNode_def)

subsection \<open>Peers at the root level\<close>

lemma map_of_fold_update:
  "map_of (fold (\<lambda>(k, v) m. AList.update k v m) xs acc) k = Some v
     \<Longrightarrow> (k, v) \<in> set xs \<or> map_of acc k = Some v"
proof (induction xs arbitrary: acc)
  case Nil
  then show ?case by simp
next
  case (Cons e xs)
  obtain a b where e: "e = (a, b)" by (cases e)
  from Cons.prems e
  have "map_of (fold (\<lambda>(k, v) m. AList.update k v m) xs (AList.update a b acc)) k = Some v"
    by simp
  from Cons.IH[OF this] show ?case
    using e by (auto simp: AList.update_conv' split: if_splits)
qed

lemma map_of_newMap: "map_of (newMap xs) k = Some v \<Longrightarrow> (k, v) \<in> set xs"
  unfolding newMap_def by (drule map_of_fold_update) simp

lemma acceptedAsPeer_True:
  "acceptedAsPeer semver d rt = Inr True \<Longrightarrow> map_of rt rn = Some r
     \<Longrightarrow> map_of (hd_peerDependencies r) (dn_name d) = Some pr
     \<Longrightarrow> satisfies semver (dn_version d) pr = Inr True"
proof (induction rt)
  case Nil
  then show ?case by simp
next
  case (Cons e rt)
  obtain k h where e: "e = (k, h)" by (cases e)
  show ?case
  proof (cases "rn = k")
    case True
    with Cons.prems e show ?thesis
      by (auto simp: andThen_def split: option.splits sum.splits if_splits)
  next
    case False
    with Cons.prems e have "acceptedAsPeer semver d rt = Inr True"
      by (auto simp: andThen_def split: option.splits sum.splits if_splits)
    with Cons.IH Cons.prems e False show ?thesis by simp
  qed
qed

lemma ownPeersSatisfied_True:
  "ownPeersSatisfied semver rt peers = Inr True \<Longrightarrow> (pn, pr) \<in> set peers
     \<Longrightarrow> map_of rt pn = Some p
     \<Longrightarrow> satisfies semver (hd_version p) pr = Inr True"
proof (induction peers)
  case Nil
  then show ?case by simp
next
  case (Cons e peers)
  obtain k v where e: "e = (k, v)" by (cases e)
  show ?case
  proof (cases "(pn, pr) = e")
    case True
    with Cons.prems e show ?thesis
      by (auto simp: andThen_def split: option.splits sum.splits if_splits)
  next
    case False
    with Cons.prems e have "ownPeersSatisfied semver rt peers = Inr True"
      by (auto simp: andThen_def split: option.splits sum.splits if_splits)
    with Cons.IH Cons.prems False show ?thesis by simp
  qed
qed

lemma canBeHoisted_True:
  assumes "canBeHoisted semver t d = Inr True"
  shows "acceptedAsPeer semver d (root t) = Inr True"
    and "ownPeersSatisfied semver (root t) (dn_peerDependencies d) = Inr True"
  using assms
  by (auto simp: canBeHoisted_def andThen_def split: sum.splits if_splits)

lemma peersHoldD:
  assumes "peersHold semver rt" and "map_of rt rn = Some r"
  shows "hd_name r = rn"
    and "map_of (hd_peerDependencies r) pn = Some pr \<Longrightarrow> pn \<noteq> rn \<Longrightarrow> map_of rt pn = Some p
           \<Longrightarrow> satisfies semver (hd_version p) pr = Inr True"
  using assms unfolding peersHold_def by blast+

lemma peersHold_hoist:
  assumes inv: "peersHold semver (root t)"
    and absent: "map_of (root t) (dn_name d) = None"
    and can: "canBeHoisted semver t d = Inr True"
  shows "peersHold semver (AList.update (dn_name d) (convertToHoistedDep d None) (root t))"
  unfolding peersHold_def
proof (intro allI impI conjI, goal_cases)
  case (1 rn r)
  then show ?case
    using peersHoldD(1)[OF inv, of rn r]
    by (auto simp: AList.update_conv' convertToHoistedDep_def split: if_splits)
next
  case (2 rn r pn pr p)
  let ?rt = "AList.update (dn_name d) (convertToHoistedDep d None) (root t)"
  from 2 have r: "map_of ?rt rn = Some r"
    and pr: "map_of (hd_peerDependencies r) pn = Some pr"
    and ne: "pn \<noteq> rn"
    and p: "map_of ?rt pn = Some p"
    by simp_all
  show ?case
  proof (cases "rn = dn_name d")
    case True
    then have r_eq: "r = convertToHoistedDep d None"
      using r by (simp add: AList.update_conv')
    from ne True p have p_old: "map_of (root t) pn = Some p"
      by (simp add: AList.update_conv')
    from pr r_eq have "(pn, pr) \<in> set (dn_peerDependencies d)"
      by (auto simp: convertToHoistedDep_def dest: map_of_newMap)
    with canBeHoisted_True(2)[OF can] p_old show ?thesis
      by (blast intro: ownPeersSatisfied_True)
  next
    case False
    then have r_old: "map_of (root t) rn = Some r"
      using r by (simp add: AList.update_conv')
    show ?thesis
    proof (cases "pn = dn_name d")
      case True
      then have "p = convertToHoistedDep d None"
        using p by (simp add: AList.update_conv')
      then have "hd_version p = dn_version d"
        by (simp add: convertToHoistedDep_def)
      moreover have "satisfies semver (dn_version d) pr = Inr True"
        using canBeHoisted_True(1)[OF can] r_old pr True
        by (auto intro: acceptedAsPeer_True)
      ultimately show ?thesis by simp
    next
      case False
      then have "map_of (root t) pn = Some p"
        using p by (simp add: AList.update_conv')
      with peersHoldD(2)[OF inv r_old pr ne] show ?thesis by simp
    qed
  qed
qed

lemma placeNode_peersHold:
  assumes "placeNode semver d p t = Inr t'" and "peersHold semver (root t)"
  shows "peersHold semver (root t')"
proof (cases "map_of (root t) (dn_name d)")
  case None
  show ?thesis
  proof (cases "canBeHoisted semver t d = Inr True")
    case True
    with assms None have "root t' = AList.update (dn_name d) (convertToHoistedDep d None) (root t)"
      by (auto simp: placeNode_def andThen_def)
    with peersHold_hoist[OF assms(2) None True] show ?thesis by simp
  next
    case False
    with assms None have "root t' = root t"
      by (auto simp: placeNode_def andThen_def split: sum.splits if_splits)
    with assms(2) show ?thesis by simp
  qed
next
  case (Some e)
  with assms have "root t' = root t"
    by (auto simp: placeNode_def andThen_def split: sum.splits if_splits)
  with assms(2) show ?thesis by simp
qed

lemma processNode_peersHold:
  "(\<forall>t'. \<not> isRoot \<longrightarrow> processNode semver node p isRoot t = Inr t'
        \<longrightarrow> peersHold semver (root t) \<longrightarrow> peersHold semver (root t'))"
  and processDependencies_peersHold:
  "(\<forall>t'. processDependencies semver deps p t = Inr t'
        \<longrightarrow> peersHold semver (root t) \<longrightarrow> peersHold semver (root t'))"
proof (induction semver node p isRoot t and semver deps p t
       rule: processNode_processDependencies.induct)
  case (1 semver name version deps peers parentPath isRoot hoistedTree)
  show ?case
  proof (intro allI impI)
    fix t'
    assume nr: "\<not> isRoot"
      and run: "processNode semver (DependencyNode name version deps peers) parentPath isRoot
                  hoistedTree = Inr t'"
      and inv: "peersHold semver (root hoistedTree)"
    from run nr obtain t1 where
      place: "placeNode semver (DependencyNode name version deps peers) parentPath hoistedTree = Inr t1"
      and rest: "processDependencies semver deps (name @ ''@'' @ version) t1 = Inr t'"
      by (auto simp: andThen_def split: sum.splits)
    from placeNode_peersHold[OF place inv] have "peersHold semver (root t1)" .
    with "1.IH"(2)[OF nr] rest show "peersHold semver (root t')" by blast
  qed
next
  case (2 semver parentPath hoistedTree)
  then show ?case by simp
next
  case (3 semver depName depNode rest parentPath hoistedTree)
  show ?case
  proof (intro allI impI)
    fix t'
    assume run: "processDependencies semver ((depName, depNode) # rest) parentPath hoistedTree = Inr t'"
      and inv: "peersHold semver (root hoistedTree)"
    from run obtain t1 where
      one: "processNode semver depNode parentPath False hoistedTree = Inr t1"
      and more: "processDependencies semver rest parentPath t1 = Inr t'"
      by (auto simp: andThen_def split: sum.splits)
    from "3.IH"(1) one inv have "peersHold semver (root t1)" by blast
    with "3.IH"(2) more show "peersHold semver (root t')" by blast
  qed
qed

lemma convertToHoistedTree_peersHold:
  assumes "convertToHoistedTree semver node = Inr t"
  shows "peersHold semver (root t)"
proof -
  obtain name version deps peers where node: "node = DependencyNode name version deps peers"
    by (cases node)
  let ?t0 = "\<lparr> root = [(name, convertToHoistedDep node None)], nested = [] \<rparr>"
  have run: "processDependencies semver deps (name @ ''@'' @ version) ?t0 = Inr t"
    using assms by (simp add: convertToHoistedTree_def node)
  have "peersHold semver (root ?t0)"
    by (auto simp: peersHold_def convertToHoistedDep_def node split: if_splits)
  with processDependencies_peersHold run show ?thesis by blast
qed


text \<open>
  Claim C3, as the planner has it. In every hoisted tree that the planner returns, an
  entry at the root is filed under its own name, and for every peer that an entry \<open>r\<close>
  declares on a name other than its own: if the root has an entry of that name, the
  library reports that its version satisfies the declared range. A peer that a package
  declares on its own name is not checked.
\<close>

theorem root_peers_satisfied:
  assumes "convertToHoistedTree semver node = Inr t"
    and "map_of (root t) rn = Some r"
    and "map_of (hd_peerDependencies r) peerName = Some peerRange"
    and "peerName \<noteq> hd_name r"
    and "map_of (root t) peerName = Some p"
  shows "hd_name r = rn \<and> satisfies semver (hd_version p) peerRange = Inr True"
proof -
  have inv: "peersHold semver (root t)"
    using assms(1) by (rule convertToHoistedTree_peersHold)
  have name: "hd_name r = rn"
    using peersHoldD(1)[OF inv assms(2)] .
  with assms(4) have "peerName \<noteq> rn" by simp
  from peersHoldD(2)[OF inv assms(2) assms(3) this assms(5)] name show ?thesis by simp
qed

lemma convertToHoistedTree_appNode:
  "convertToHoistedTree semverTable appNode =
     Inr \<lparr> root = [(''app'', convertToHoistedDep appNode None),
                     (''plugin'', convertToHoistedDep pluginNode None),
                     (''react'', convertToHoistedDep (reactNode ''1.1.0'') None)],
           nested = [] \<rparr>"
  by (simp add: convertToHoistedTree_def appNode_def pluginNode_def reactNode_def placeNode_def
        canBeHoisted_def andThen_def convertToHoistedDep_def newMap_def semverTable_simps)

theorem root_peers_satisfied_witness:
  "convertToHoistedTree semverTable appNode =
     Inr \<lparr> root = [(''app'', convertToHoistedDep appNode None),
                     (''plugin'', convertToHoistedDep pluginNode None),
                     (''react'', convertToHoistedDep (reactNode ''1.1.0'') None)],
           nested = [] \<rparr>
   \<and> map_of (hd_peerDependencies (convertToHoistedDep pluginNode None)) ''react'' = Some ''^1.0.0''
   \<and> satisfies semverTable (hd_version (convertToHoistedDep (reactNode ''1.1.0'') None)) ''^1.0.0''
       = Inr True"
proof -
  have peer: "map_of (hd_peerDependencies (convertToHoistedDep pluginNode None)) ''react''
                = Some ''^1.0.0''"
    by (simp add: convertToHoistedDep_def pluginNode_def newMap_def)
  have "satisfies semverTable (hd_version (convertToHoistedDep (reactNode ''1.1.0'') None)) ''^1.0.0''
          = Inr True"
    using root_peers_satisfied[OF convertToHoistedTree_appNode, of "''plugin''"
            "convertToHoistedDep pluginNode None" "''react''" "''^1.0.0''"
            "convertToHoistedDep (reactNode ''1.1.0'') None"] peer
    by (simp add: convertToHoistedDep_def pluginNode_def)
  with convertToHoistedTree_appNode peer show ?thesis by simp
qed

text \<open>
  The claim as it is written also covers a peer on the entry's own name. The logical root
  is placed without any check, so a package that declares a peer on itself ends up at the
  root next to a declaration that its own version does not satisfy.
\<close>

theorem root_peers_self_counterexample:
  "convertToHoistedTree semverTable selfPeerNode
     = Inr \<lparr> root = [(''a'', selfPeerEntry)], nested = [] \<rparr>
   \<and> map_of [(''a'', selfPeerEntry)] ''a'' = Some selfPeerEntry
   \<and> map_of (hd_peerDependencies selfPeerEntry) ''a'' = Some ''^2.0.0''
   \<and> satisfies semverTable (hd_version selfPeerEntry) ''^2.0.0'' = Inr False"
  by (simp add: convertToHoistedTree_def selfPeerNode_def selfPeerEntry_def
        convertToHoistedDep_def newMap_def semverTable_simps)

subsection \<open>Placement\<close>



lemma processNode_nonRoot:
  "processNode semver d p False t =
     andThen (placeNode semver d p t)
       (processDependencies semver (dn_dependencies d) (dn_name d @ ''@'' @ dn_version d))"
  by (cases d) simp


subsection \<open>The builder and its state\<close>

lemma flatLe_refl [simp]: "flatLe f f"
  by (auto simp: flatLe_def)

lemma flatLe_trans: "flatLe f g \<Longrightarrow> flatLe g h \<Longrightarrow> flatLe f h"
  unfolding flatLe_def by (meson subset_trans)

lemma grows_refl [simp]: "grows s st st"
  by (simp add: grows_def)

lemma grows_trans: "grows s st1 st2 \<Longrightarrow> grows s st2 st3 \<Longrightarrow> grows s st1 st3"
  unfolding grows_def by (auto intro: flatLe_trans map_le_trans)

lemma flatLe_add: "flatLe f (addFlatDependency name version parentPath f)"
  by (auto simp: flatLe_def addFlatDependency_def Let_def split: option.splits)

lemma recordedIn_add:
  "recordedIn (addFlatDependency name version parentPath f) (name, version, parentPath)"
  by (auto simp: recordedIn_def addFlatDependency_def Let_def split: option.splits)

lemma recordedIn_mono: "recordedIn f occ \<Longrightarrow> flatLe f g \<Longrightarrow> recordedIn g occ"
  by (cases occ) (fastforce simp: recordedIn_def flatLe_def split: option.splits)

lemma getPackageInfo_cases:
  obtains (hit) packageInfo where "packageCache a (cacheKey name version) = Some packageInfo"
      "getPackageInfo s name version a = (Inr packageInfo, a)"
  | (failed) t where "packageCache a (cacheKey name version) = None"
      "resolveResponse (semverLib s) name version (fetch s (requestUrl s name)) = Inl t"
      "getPackageInfo s name version a =
         (Inl (Thrown (PackageNotFoundError name version (Some (asError t)))),
          a \<lparr> requests := requests a @ [requestUrl s name] \<rparr>)"
  | (fetched) packageInfo where "packageCache a (cacheKey name version) = None"
      "resolveResponse (semverLib s) name version (fetch s (requestUrl s name)) = Inr packageInfo"
      "getPackageInfo s name version a =
         (Inr packageInfo,
          a \<lparr> requests := requests a @ [requestUrl s name],
              packageCache := (packageCache a)(cacheKey name version \<mapsto> packageInfo) \<rparr>)"
proof (cases "packageCache a (cacheKey name version)")
  case None
  show ?thesis
  proof (cases "resolveResponse (semverLib s) name version (fetch s (requestUrl s name))")
    case (Inl t)
    with None show ?thesis
      by (intro failed[of t]) (simp_all add: getPackageInfo_miss getPackageInfo_resume_def)
  next
    case (Inr packageInfo)
    with None show ?thesis
      by (intro fetched[of packageInfo]) (simp_all add: getPackageInfo_miss getPackageInfo_resume_def)
  qed
next
  case (Some packageInfo)
  then show ?thesis
    by (intro hit[of packageInfo]) (simp_all add: getPackageInfo_hit)
qed

lemma getPackageInfo_grows:
  assumes "getPackageInfo s name version a = (r, a1)"
  shows "grows s (f, a) (f, a1)"
proof (cases rule: getPackageInfo_cases[where a = a and name = name and version = version and s = s])
  case (hit packageInfo)
  have "(r, a1) = (Inr packageInfo, a)"
    by (rule trans[OF assms[symmetric] hit(2)])
  then show ?thesis by simp
next
  case (failed t)
  have "(r, a1) = (Inl (Thrown (PackageNotFoundError name version (Some (asError t)))),
                   a \<lparr> requests := requests a @ [requestUrl s name] \<rparr>)"
    by (rule trans[OF assms[symmetric] failed(3)])
  then have "packageCache a1 = packageCache a" by simp
  then show ?thesis by (simp add: grows_def cacheFrom_def)
next
  case (fetched packageInfo)
  have "(r, a1) = (Inr packageInfo,
                   a \<lparr> requests := requests a @ [requestUrl s name],
                       packageCache := (packageCache a)(cacheKey name version \<mapsto> packageInfo) \<rparr>)"
    by (rule trans[OF assms[symmetric] fetched(3)])
  then have a1: "packageCache a1 = (packageCache a)(cacheKey name version \<mapsto> packageInfo)"
    by simp
  have "cacheFrom s a1" if "cacheFrom s a"
    unfolding cacheFrom_def
  proof (intro allI impI)
    fix key info
    assume in_a1: "packageCache a1 key = Some info"
    show "\<exists>name version. key = cacheKey name version
        \<and> resolveResponse (semverLib s) name version (fetch s (requestUrl s name)) = Inr info"
    proof (cases "key = cacheKey name version")
      case True
      with in_a1 have "info = packageInfo" by (simp add: a1)
      with fetched(2) True show ?thesis by blast
    next
      case False
      with in_a1 have "packageCache a key = Some info" by (simp add: a1)
      with that show ?thesis unfolding cacheFrom_def by blast
    qed
  qed
  moreover have "packageCache a \<subseteq>\<^sub>m packageCache a1"
    using fetched(1) by (auto simp: a1 map_le_def)
  ultimately show ?thesis by (simp add: grows_def)
qed

lemma buildDependencyTree_grows:
  "\<forall>r st'. buildDependencyTree fuel s name version parentPath st = Some (r, st') \<longrightarrow> grows s st st'"
  and buildDependencies_grows:
  "\<forall>r st'. buildDependencies fuel s deps path st = Some (r, st') \<longrightarrow> grows s st st'"
proof (induction fuel s name version parentPath st and fuel s deps path st
       rule: buildDependencyTree_buildDependencies.induct)
  case (1 s name version parentPath st)
  then show ?case by simp
next
  case (2 fuel s name version parentPath flatDeps a)
  show ?case
  proof (intro allI impI)
    fix r st'
    assume run: "buildDependencyTree (Suc fuel) s name version parentPath (flatDeps, a) = Some (r, st')"
    obtain g a1 where g: "getPackageInfo s name version a = (g, a1)"
      by (cases "getPackageInfo s name version a")
    have step1: "grows s (flatDeps, a) (flatDeps, a1)"
      using g by (rule getPackageInfo_grows)
    show "grows s (flatDeps, a) st'"
    proof (cases g)
      case (Inl e)
      with run g step1 show ?thesis by auto
    next
      case (Inr packageInfo)
      let ?st1 = "(addFlatDependency name (pi_version packageInfo) parentPath flatDeps, a1)"
      have step2: "grows s (flatDeps, a1) ?st1"
        by (simp add: grows_def flatLe_add)
      from run g Inr obtain r2 where
        kids: "buildDependencies fuel s (pi_dependencies packageInfo)
                 (currentPath parentPath name (pi_version packageInfo)) ?st1 = Some (r2, st')"
        by (auto split: option.splits sum.splits)
      from "2.IH"[OF g[symmetric] Inr] kids have "grows s ?st1 st'"
        by blast
      with step1 step2 show ?thesis
        by (blast intro: grows_trans)
    qed
  qed
next
  case (3 fuel s path st)
  then show ?case by simp
next
  case (4 fuel s depName depVersion rest path st)
  show ?case
  proof (intro allI impI)
    fix r st'
    assume run: "buildDependencies fuel s ((depName, depVersion) # rest) path st = Some (r, st')"
    then obtain r1 st1 where
      one: "buildDependencyTree fuel s depName depVersion path st = Some (r1, st1)"
      by (auto split: option.splits)
    with "4.IH"(1) have g1: "grows s st st1" by blast
    show "grows s st st'"
    proof (cases r1)
      case (Inl e)
      with run one g1 show ?thesis by auto
    next
      case (Inr depNode)
      with run one obtain r2 where
        more: "buildDependencies fuel s rest path st1 = Some (r2, st')"
        by (auto split: option.splits sum.splits)
      with "4.IH"(2) one Inr have "grows s st1 st'"
        by blast
      with g1 show ?thesis by (rule grows_trans)
    qed
  qed
qed


lemma set_update_subset: "set (AList.update k v al) \<subseteq> insert (k, v) (set al)"
  by (induction al) auto

lemma set_fold_update:
  "set (fold (\<lambda>(k, v) m. AList.update k v m) xs acc) \<subseteq> set xs \<union> set acc"
proof (induction xs arbitrary: acc)
  case Nil
  then show ?case by simp
next
  case (Cons e xs)
  obtain k v where e: "e = (k, v)" by (cases e)
  have "set (fold (\<lambda>(k, v) m. AList.update k v m) xs (AList.update k v acc))
          \<subseteq> set xs \<union> set (AList.update k v acc)"
    by (rule Cons.IH)
  also have "\<dots> \<subseteq> set xs \<union> insert (k, v) (set acc)"
    using set_update_subset[of k v acc] by blast
  finally show ?case using e by auto
qed

lemma set_newMap: "set (newMap xs) \<subseteq> set xs"
  unfolding newMap_def using set_fold_update[of xs "[]"] by simp

lemma growsD_flat: "grows s st st' \<Longrightarrow> recordedIn (fst st) occ \<Longrightarrow> recordedIn (fst st') occ"
  by (auto simp: grows_def intro: recordedIn_mono)

lemma buildDependencyTree_records:
  "\<forall>node st'. buildDependencyTree fuel s name version parentPath st = Some (Inr node, st')
      \<longrightarrow> (\<forall>occ \<in> set (occurrences parentPath node). recordedIn (fst st') occ)"
  and buildDependencies_records:
  "\<forall>results st'. buildDependencies fuel s deps path st = Some (Inr results, st')
      \<longrightarrow> (\<forall>(k, d) \<in> set results. \<forall>occ \<in> set (occurrences path d). recordedIn (fst st') occ)"
proof (induction fuel s name version parentPath st and fuel s deps path st
       rule: buildDependencyTree_buildDependencies.induct)
  case (1 s name version parentPath st)
  then show ?case by simp
next
  case (2 fuel s name version parentPath flatDeps a)
  show ?case
  proof (intro allI impI)
    fix node st'
    assume run: "buildDependencyTree (Suc fuel) s name version parentPath (flatDeps, a)
                   = Some (Inr node, st')"
    obtain g a1 where g: "getPackageInfo s name version a = (g, a1)"
      by (cases "getPackageInfo s name version a")
    from run g obtain packageInfo where info: "g = Inr packageInfo"
      by (cases g) auto
    let ?path = "currentPath parentPath name (pi_version packageInfo)"
    let ?st1 = "(addFlatDependency name (pi_version packageInfo) parentPath flatDeps, a1)"
    from run g info obtain results where
      kids: "buildDependencies fuel s (pi_dependencies packageInfo) ?path ?st1
               = Some (Inr results, st')"
      and node: "node = DependencyNode name (pi_version packageInfo) (newMap results)
                          (newMap (pi_peerDependencies packageInfo))"
      by (auto split: option.splits sum.splits)
    have own: "recordedIn (fst st') (name, pi_version packageInfo, parentPath)"
    proof -
      have "recordedIn (fst ?st1) (name, pi_version packageInfo, parentPath)"
        by (simp add: recordedIn_add)
      moreover have "grows s ?st1 st'"
        using buildDependencies_grows kids by blast
      ultimately show ?thesis by (rule growsD_flat[rotated])
    qed
    have below: "\<forall>(k, d) \<in> set results. \<forall>occ \<in> set (occurrences ?path d). recordedIn (fst st') occ"
      using "2.IH"[OF g[symmetric] info] kids by blast
    show "\<forall>occ \<in> set (occurrences parentPath node). recordedIn (fst st') occ"
    proof
      fix occ
      assume "occ \<in> set (occurrences parentPath node)"
      then consider "occ = (name, pi_version packageInfo, parentPath)"
        | k d where "(k, d) \<in> set (newMap results)" "occ \<in> set (occurrences ?path d)"
        by (auto simp: node)
      then show "recordedIn (fst st') occ"
      proof cases
        case 1
        with own show ?thesis by simp
      next
        case 2
        from 2(1) set_newMap have "(k, d) \<in> set results" by blast
        with below 2(2) show ?thesis by blast
      qed
    qed
  qed
next
  case (3 fuel s path st)
  then show ?case by simp
next
  case (4 fuel s depName depVersion rest path st)
  show ?case
  proof (intro allI impI)
    fix results st'
    assume run: "buildDependencies fuel s ((depName, depVersion) # rest) path st
                   = Some (Inr results, st')"
    then obtain depNode st1 results' where
      one: "buildDependencyTree fuel s depName depVersion path st = Some (Inr depNode, st1)"
      and more: "buildDependencies fuel s rest path st1 = Some (Inr results', st')"
      and results: "results = (depName, depNode) # results'"
      by (auto split: option.splits sum.splits)
    have first: "\<forall>occ \<in> set (occurrences path depNode). recordedIn (fst st') occ"
    proof
      fix occ
      assume "occ \<in> set (occurrences path depNode)"
      with "4.IH"(1) one have "recordedIn (fst st1) occ" by blast
      moreover have "grows s st1 st'"
        using buildDependencies_grows more by blast
      ultimately show "recordedIn (fst st') occ" by (rule growsD_flat[rotated])
    qed
    have others: "\<forall>(k, d) \<in> set results'. \<forall>occ \<in> set (occurrences path d). recordedIn (fst st') occ"
      using "4.IH"(2)[OF one refl refl] more by blast
    from first others results
    show "\<forall>(k, d) \<in> set results. \<forall>occ \<in> set (occurrences path d). recordedIn (fst st') occ"
      by auto
  qed
qed

text \<open>
  Claim C5. When \<open>buildDependencyTree\<close> returns a tree, then for every occurrence of a
  \<open>(name, version)\<close> pair in the tree the flat index has an entry under \<open>name@version\<close>
  whose \<open>requiredBy\<close> set contains the parent path the occurrence was built with, and the
  string \<open>root\<close> when that path is empty.
\<close>

theorem flat_dependencies_record_every_occurrence:
  assumes "buildDependencyTree fuel s name version parentPath (flatDeps, a)
             = Some (Inr tree, flatDeps', a')"
    and "(n, v, p) \<in> set (occurrences parentPath tree)"
  shows "\<exists>entry. flatDeps' (n @ ''@'' @ v) = Some entry
           \<and> (if p = [] then ''root'' else p) \<in> fd_requiredBy entry"
proof -
  from buildDependencyTree_records assms have "recordedIn flatDeps' (n, v, p)"
    by fastforce
  then show ?thesis
    by (auto simp: recordedIn_def split: option.splits)
qed

lemmas app_simps =
  appInfo_def appTree_def appFlat_def appAnalyzer_def libInfo_def currentPath_def
  addFlatDependency_def newMap_def Let_def

lemma buildDependencyTree_app:
  "buildDependencyTree (Suc (Suc 0)) npm ''app'' ''1.0.0'' [] (Map.empty, newAnalyzer)
     = Some (Inr appTree, appFlat, appAnalyzer)"
  by (simp add: getPackageInfo_simps npm_simps semverTable_simps app_simps)

theorem flat_dependencies_record_every_occurrence_witness:
  "buildDependencyTree (Suc (Suc 0)) npm ''app'' ''1.0.0'' [] (Map.empty, newAnalyzer)
     = Some (Inr appTree, appFlat, appAnalyzer)
   \<and> occurrences [] appTree = [(''app'', ''1.0.0'', []), (''lib'', ''1.1.0'', ''app@1.0.0'')]
   \<and> (\<exists>entry. appFlat ''app@1.0.0'' = Some entry \<and> ''root'' \<in> fd_requiredBy entry)
   \<and> (\<exists>entry. appFlat ''lib@1.1.0'' = Some entry \<and> ''app@1.0.0'' \<in> fd_requiredBy entry)"
proof -
  have occ: "occurrences [] appTree = [(''app'', ''1.0.0'', []), (''lib'', ''1.1.0'', ''app@1.0.0'')]"
    by (simp add: appTree_def currentPath_def)
  show ?thesis
    using buildDependencyTree_app occ
      flat_dependencies_record_every_occurrence[OF buildDependencyTree_app,
        of "''app''" "''1.0.0''" "[]"]
      flat_dependencies_record_every_occurrence[OF buildDependencyTree_app,
        of "''lib''" "''1.1.0''" "''app@1.0.0''"]
    by simp
qed

subsection \<open>Termination of the builder\<close>

lemma buildDependencyTree_more_fuel:
  "\<forall>r. buildDependencyTree fuel s name version parentPath st = Some r
      \<longrightarrow> buildDependencyTree (Suc fuel) s name version parentPath st = Some r"
  and buildDependencies_more_fuel:
  "\<forall>r. buildDependencies fuel s deps path st = Some r
      \<longrightarrow> buildDependencies (Suc fuel) s deps path st = Some r"
proof (induction fuel s name version parentPath st and fuel s deps path st
       rule: buildDependencyTree_buildDependencies.induct)
  case (1 s name version parentPath st)
  then show ?case by simp
next
  case (2 fuel s name version parentPath flatDeps a)
  show ?case
  proof (intro allI impI)
    fix r
    assume run: "buildDependencyTree (Suc fuel) s name version parentPath (flatDeps, a) = Some r"
    obtain g a1 where g: "getPackageInfo s name version a = (g, a1)"
      by (cases "getPackageInfo s name version a")
    show "buildDependencyTree (Suc (Suc fuel)) s name version parentPath (flatDeps, a) = Some r"
    proof (cases g)
      case (Inl e)
      with run g show ?thesis by simp
    next
      case (Inr packageInfo)
      let ?path = "currentPath parentPath name (pi_version packageInfo)"
      let ?st1 = "(addFlatDependency name (pi_version packageInfo) parentPath flatDeps, a1)"
      from run g Inr obtain r2 where
        kids: "buildDependencies fuel s (pi_dependencies packageInfo) ?path ?st1 = Some r2"
        by (auto split: option.splits)
      with "2.IH"[OF g[symmetric] Inr]
      have "buildDependencies (Suc fuel) s (pi_dependencies packageInfo) ?path ?st1 = Some r2"
        by blast
      with run g Inr kids show ?thesis
        by (simp del: buildDependencies.simps)
    qed
  qed
next
  case (3 fuel s path st)
  then show ?case by simp
next
  case (4 fuel s depName depVersion rest path st)
  show ?case
  proof (intro allI impI)
    fix r
    assume run: "buildDependencies fuel s ((depName, depVersion) # rest) path st = Some r"
    then obtain r1 st1 where
      one: "buildDependencyTree fuel s depName depVersion path st = Some (r1, st1)"
      by (auto split: option.splits)
    with "4.IH"(1)
    have one': "buildDependencyTree (Suc fuel) s depName depVersion path st = Some (r1, st1)"
      by blast
    show "buildDependencies (Suc fuel) s ((depName, depVersion) # rest) path st = Some r"
    proof (cases r1)
      case (Inl e)
      with run one one' show ?thesis
        by (simp del: buildDependencyTree.simps)
    next
      case (Inr depNode)
      with run one obtain r2 where
        more: "buildDependencies fuel s rest path st1 = Some r2"
        by (auto split: option.splits)
      with "4.IH"(2)[OF one refl Inr]
      have "buildDependencies (Suc fuel) s rest path st1 = Some r2"
        by blast
      with run one one' Inr more show ?thesis
        by (simp del: buildDependencyTree.simps)
    qed
  qed
qed

lemma buildDependencyTree_fuel_mono:
  assumes "buildDependencyTree fuel s name version parentPath st = Some r" and "fuel \<le> fuel'"
  shows "buildDependencyTree fuel' s name version parentPath st = Some r"
  using assms(2,1)
  by (induction rule: dec_induct) (auto dest: buildDependencyTree_more_fuel[rule_format])

lemma buildDependencies_fuel_mono:
  assumes "buildDependencies fuel s deps path st = Some r" and "fuel \<le> fuel'"
  shows "buildDependencies fuel' s deps path st = Some r"
  using assms(2,1)
  by (induction rule: dec_induct) (auto dest: buildDependencies_more_fuel[rule_format])

lemma growsD_cacheFrom: "grows s st st' \<Longrightarrow> cacheFrom s (snd st) \<Longrightarrow> cacheFrom s (snd st')"
  by (simp add: grows_def)

lemma getPackageInfo_from_registry:
  assumes "getPackageInfo s name version a = (Inr packageInfo, a1)" and "cacheFrom s a"
  shows "\<exists>name' version'. cacheKey name' version' = cacheKey name version
           \<and> resolveResponse (semverLib s) name' version' (fetch s (requestUrl s name'))
               = Inr packageInfo"
proof (cases rule: getPackageInfo_cases[where a = a and name = name and version = version and s = s])
  case (hit i)
  have "(Inr packageInfo :: thrown + PackageInfo, a1) = (Inr i, a)"
    by (rule trans[OF assms(1)[symmetric] hit(2)])
  then have "packageCache a (cacheKey name version) = Some packageInfo"
    using hit(1) by simp
  with assms(2) show ?thesis
    unfolding cacheFrom_def by metis
next
  case (failed t)
  have "(Inr packageInfo :: thrown + PackageInfo, a1)
          = (Inl (Thrown (PackageNotFoundError name version (Some (asError t)))),
             a \<lparr> requests := requests a @ [requestUrl s name] \<rparr>)"
    by (rule trans[OF assms(1)[symmetric] failed(3)])
  then show ?thesis by simp
next
  case (fetched i)
  have "(Inr packageInfo :: thrown + PackageInfo, a1)
          = (Inr i, a \<lparr> requests := requests a @ [requestUrl s name],
                       packageCache := (packageCache a)(cacheKey name version \<mapsto> i) \<rparr>)"
    by (rule trans[OF assms(1)[symmetric] fetched(3)])
  then have "i = packageInfo" by simp
  with fetched(2) show ?thesis by blast
qed

lemma buildDependencies_terminates:
  assumes each: "\<And>depName depVersion parentPath st.
            (depName, depVersion) \<in> set deps \<Longrightarrow> cacheFrom s (snd st) \<Longrightarrow>
            \<exists>fuel r. buildDependencyTree fuel s depName depVersion parentPath st = Some r"
    and "cacheFrom s (snd st)"
  shows "\<exists>fuel r. buildDependencies fuel s deps path st = Some r"
  using assms
proof (induction deps arbitrary: st)
  case Nil
  then show ?case by simp
next
  case (Cons dep deps)
  obtain depName depVersion where dep: "dep = (depName, depVersion)" by (cases dep)
  from Cons.prems(1)[of depName depVersion st path] Cons.prems(2) dep
  obtain f1 r1 st1 where
    one: "buildDependencyTree f1 s depName depVersion path st = Some (r1, st1)"
    by auto
  show ?case
  proof (cases r1)
    case (Inl e)
    with one dep have "buildDependencies f1 s (dep # deps) path st = Some (Inl e, st1)"
      by simp
    then show ?thesis by blast
  next
    case (Inr depNode)
    have "cacheFrom s (snd st1)"
      using buildDependencyTree_grows one Cons.prems(2) growsD_cacheFrom by blast
    with Cons.IH[of st1] Cons.prems(1)
    obtain f2 r2 where more: "buildDependencies f2 s deps path st1 = Some r2"
      by (metis list.set_intros(2))
    let ?f = "max f1 f2"
    have one': "buildDependencyTree ?f s depName depVersion path st = Some (r1, st1)"
      using one by (rule buildDependencyTree_fuel_mono) simp
    have more': "buildDependencies ?f s deps path st1 = Some r2"
      using more by (rule buildDependencies_fuel_mono) simp
    have "\<exists>r. buildDependencies ?f s (dep # deps) path st = Some r"
      using one' more' Inr dep
      by (cases r2; cases "fst r2") (simp_all del: buildDependencyTree.simps)
    then show ?thesis by blast
  qed
qed


lemma resolveResponse_record:
  assumes "resolveResponse semver name version r = Inr packageInfo"
  shows "\<exists>metadata versions v rec.
           r = Response True (Document metadata) \<and> md_versions metadata = Some versions
           \<and> map_of versions v = Some rec
           \<and> pi_dependencies packageInfo = (case vr_dependencies rec of None \<Rightarrow> [] | Some d \<Rightarrow> d)"
proof -
  from assms obtain metadata where r: "r = Response True (Document metadata)"
    by (auto simp: resolveResponse_def split: response.splits body.splits if_splits)
  from assms r obtain v where "packageInfoOf metadata v = Inr packageInfo"
    by (auto simp: resolveResponse_def andThen_def split: sum.splits option.splits)
  then obtain versions rec where "md_versions metadata = Some versions"
    "map_of versions v = Some rec"
    "pi_dependencies packageInfo = (case vr_dependencies rec of None \<Rightarrow> [] | Some d \<Rightarrow> d)"
    by (auto simp: packageInfoOf_def split: option.splits)
  with r show ?thesis by blast
qed

lemma npm_ranked:
  assumes "resolveResponse (semverLib npm) name version (fetch npm (requestUrl npm name))
             = Inr packageInfo"
    and "(depName, depVersion) \<in> set (pi_dependencies packageInfo)"
  shows "npmRank (cacheKey depName depVersion) < npmRank (cacheKey name version)"
proof -
  from resolveResponse_record[OF assms(1)] obtain metadata versions v rec where
    r: "fetch npm (requestUrl npm name) = Response True (Document metadata)"
    and vs: "md_versions metadata = Some versions" "map_of versions v = Some rec"
    and deps: "pi_dependencies packageInfo
                 = (case vr_dependencies rec of None \<Rightarrow> [] | Some d \<Rightarrow> d)"
    by blast
  from r consider "name = ''app''" "metadata = appDocument"
    | "name = ''lib''" "metadata = libDocument"
    | "name = ''stale''" "metadata = staleDocument"
    by (auto simp: npm_def npmAnswers_def notFound_def requestUrl_def configuredRegistry_def
          defaultRegistry_def orElse_def split: if_splits)
  then show ?thesis
  proof cases
    case 1
    with vs have "rec = appRecord"
      by (auto simp: appDocument_def split: if_splits)
    with deps assms(2) 1 show ?thesis
      by (auto simp: appRecord_def npmRank_def cacheKey_def)
  next
    case 2
    with vs have "rec = libRecord"
      by (auto simp: libDocument_def split: if_splits)
    with deps assms(2) show ?thesis
      by (simp add: libRecord_def)
  next
    case 3
    with vs have "rec = staleRecord"
      by (auto simp: staleDocument_def split: if_splits)
    with deps assms(2) show ?thesis
      by (simp add: staleRecord_def)
  qed
qed


text \<open>
  With the cyclic declarations of \<open>ping\<close> and \<open>pong\<close> no amount of fuel is enough: the build
  never returns.
\<close>

lemmas cyclic_simps =
  cyclic_def cyclicAnswers_def notFound_def pingDocument_def pongDocument_def pingInfo_def
  pongInfo_def configuredRegistry_def defaultRegistry_def orElse_def requestUrl_def cacheKey_def

lemma getPackageInfo_ping:
  assumes "pingPongCache a"
  shows "\<exists>a1. getPackageInfo cyclic ''ping'' ''1.0.0'' a = (Inr pingInfo, a1) \<and> pingPongCache a1"
proof (cases "packageCache a ''ping@1.0.0''")
  case None
  then show ?thesis
    using assms
    by (simp add: getPackageInfo_simps cyclic_simps pingPongCache_def)
next
  case (Some i)
  with assms have "i = pingInfo" by (simp add: pingPongCache_def)
  with Some assms show ?thesis
    by (simp add: getPackageInfo_hit cacheKey_def)
qed

lemma getPackageInfo_pong:
  assumes "pingPongCache a"
  shows "\<exists>a1. getPackageInfo cyclic ''pong'' ''1.0.0'' a = (Inr pongInfo, a1) \<and> pingPongCache a1"
proof (cases "packageCache a ''pong@1.0.0''")
  case None
  then show ?thesis
    using assms
    by (simp add: getPackageInfo_simps cyclic_simps pingPongCache_def)
next
  case (Some i)
  with assms have "i = pongInfo" by (simp add: pingPongCache_def)
  with Some assms show ?thesis
    by (simp add: getPackageInfo_hit cacheKey_def)
qed

lemma cyclic_never_returns:
  "pingPongCache a \<Longrightarrow>
     buildDependencyTree fuel cyclic ''ping'' ''1.0.0'' parentPath (flatDeps, a) = None
     \<and> buildDependencyTree fuel cyclic ''pong'' ''1.0.0'' parentPath (flatDeps, a) = None"
proof (induction fuel arbitrary: a parentPath flatDeps)
  case 0
  then show ?case by simp
next
  case (Suc fuel)
  from getPackageInfo_ping[OF Suc.prems] obtain a1 where
    ping: "getPackageInfo cyclic ''ping'' ''1.0.0'' a = (Inr pingInfo, a1)" "pingPongCache a1"
    by blast
  from getPackageInfo_pong[OF Suc.prems] obtain a2 where
    pong: "getPackageInfo cyclic ''pong'' ''1.0.0'' a = (Inr pongInfo, a2)" "pingPongCache a2"
    by blast
  have "buildDependencyTree (Suc fuel) cyclic ''ping'' ''1.0.0'' parentPath (flatDeps, a) = None"
    using ping(1) Suc.IH[OF ping(2)]
    by (simp add: pingInfo_def)
  moreover
  have "buildDependencyTree (Suc fuel) cyclic ''pong'' ''1.0.0'' parentPath (flatDeps, a) = None"
    using pong(1) Suc.IH[OF pong(2)]
    by (simp add: pongInfo_def)
  ultimately show ?case by simp
qed


subsection \<open>No packages\<close>

text \<open>
  Claim C7, as the analyzer has it. \<open>analyzeMultiple\<close> on an empty array returns, whatever
  the registry and the cache, a result whose \<open>individual\<close> map and combined flat index are
  empty and whose combined hoisted tree has no nested bucket and exactly one root entry:
  the synthetic root \<open>virtual-root@0.0.0\<close>, placed there like every logical root. The cache
  and the request log are unchanged.
\<close>

theorem analyzeMultiple_empty:
  "analyzeMultiple fuel s [] a = Some (Inr emptyAnalysis, a)"
  by (simp add: analyzeMultiple_def convertToHoistedTree_def virtualRoot_def emptyAnalysis_def
        virtualRootEntry_def convertToHoistedDep_def newMap_def)

text \<open>So the root map of the combined tree is not empty, and the virtual root is in it.\<close>

theorem analyzeMultiple_empty_counterexample:
  "analyzeMultiple 0 offline [] newAnalyzer = Some (Inr emptyAnalysis, newAnalyzer)
   \<and> individual emptyAnalysis = []
   \<and> root (combined_hoistedTree emptyAnalysis) \<noteq> []
   \<and> map_of (root (combined_hoistedTree emptyAnalysis)) ''virtual-root'' = Some virtualRootEntry"
  by (simp add: analyzeMultiple_def convertToHoistedTree_def virtualRoot_def emptyAnalysis_def
        virtualRootEntry_def convertToHoistedDep_def newMap_def)

subsection \<open>Failures of a resolution\<close>

lemma resolveResponse_failure:
  "isl (resolveResponse (semverLib s) name version (fetch s (requestUrl s name)))
     \<longleftrightarrow> failureOf s name version \<noteq> None"
  by (simp add: resolveResponse_def failureOf_def packageInfoOf_def andThen_def
           split: response.splits body.splits sum.splits option.splits)

lemma getPackageInfo_resume_error:
  "fst (getPackageInfo_resume s name version r a) =
     (case resolveResponse (semverLib s) name version r of
        Inl t \<Rightarrow> Inl (Thrown (PackageNotFoundError name version (Some (asError t))))
      | Inr packageInfo \<Rightarrow> Inr packageInfo)"
  by (simp add: getPackageInfo_resume_def split: sum.splits)




subsection \<open>The cache\<close>

lemma growsD_cache: "grows s st st' \<Longrightarrow> packageCache (snd st) \<subseteq>\<^sub>m packageCache (snd st')"
  by (simp add: grows_def)

lemma getPackageInfo_stores:
  assumes "getPackageInfo s name version a = (Inr packageInfo, a1)"
  shows "packageCache a1 (cacheKey name version) = Some packageInfo"
proof (cases rule: getPackageInfo_cases[where a = a and name = name and version = version and s = s])
  case (hit i)
  have "(Inr packageInfo :: thrown + PackageInfo, a1) = (Inr i, a)"
    by (rule trans[OF assms(1)[symmetric] hit(2)])
  with hit(1) show ?thesis by simp
next
  case (failed t)
  have "(Inr packageInfo :: thrown + PackageInfo, a1)
          = (Inl (Thrown (PackageNotFoundError name version (Some (asError t)))),
             a \<lparr> requests := requests a @ [requestUrl s name] \<rparr>)"
    by (rule trans[OF assms(1)[symmetric] failed(3)])
  then show ?thesis by simp
next
  case (fetched i)
  have "(Inr packageInfo :: thrown + PackageInfo, a1)
          = (Inr i, a \<lparr> requests := requests a @ [requestUrl s name],
                       packageCache := (packageCache a)(cacheKey name version \<mapsto> i) \<rparr>)"
    by (rule trans[OF assms(1)[symmetric] fetched(3)])
  then show ?thesis by simp
qed

lemma getPackageInfo_again:
  assumes "getPackageInfo s name version a = (Inr packageInfo, a1)"
    and "packageCache a1 \<subseteq>\<^sub>m packageCache a2"
  shows "getPackageInfo s name version a2 = (Inr packageInfo, a2)"
proof -
  from getPackageInfo_stores[OF assms(1)] assms(2)
  have "packageCache a2 (cacheKey name version) = Some packageInfo"
    by (auto simp: map_le_def dom_def)
  then show ?thesis by (rule getPackageInfo_hit)
qed

lemma buildDependencyTree_again:
  "\<forall>node f' a'. buildDependencyTree fuel s name version parentPath st = Some (Inr node, f', a')
      \<longrightarrow> (\<forall>a2. packageCache a' \<subseteq>\<^sub>m packageCache a2
            \<longrightarrow> buildDependencyTree fuel s name version parentPath (fst st, a2)
                  = Some (Inr node, f', a2))"
  and buildDependencies_again:
  "\<forall>results f' a'. buildDependencies fuel s deps path st = Some (Inr results, f', a')
      \<longrightarrow> (\<forall>a2. packageCache a' \<subseteq>\<^sub>m packageCache a2
            \<longrightarrow> buildDependencies fuel s deps path (fst st, a2) = Some (Inr results, f', a2))"
proof (induction fuel s name version parentPath st and fuel s deps path st
       rule: buildDependencyTree_buildDependencies.induct)
  case (1 s name version parentPath st)
  then show ?case by simp
next
  case (2 fuel s name version parentPath flatDeps a)
  show ?case
  proof (intro allI impI)
    fix node f' and a' a2 :: Analyzer
    assume run: "buildDependencyTree (Suc fuel) s name version parentPath (flatDeps, a)
                   = Some (Inr node, f', a')"
      and le: "packageCache a' \<subseteq>\<^sub>m packageCache a2"
    obtain g a1 where g: "getPackageInfo s name version a = (g, a1)"
      by (cases "getPackageInfo s name version a")
    from run g obtain packageInfo where info: "g = Inr packageInfo"
      by (cases g) auto
    let ?path = "currentPath parentPath name (pi_version packageInfo)"
    let ?flat1 = "addFlatDependency name (pi_version packageInfo) parentPath flatDeps"
    from run g info obtain results where
      kids: "buildDependencies fuel s (pi_dependencies packageInfo) ?path (?flat1, a1)
               = Some (Inr results, f', a')"
      and node: "node = DependencyNode name (pi_version packageInfo) (newMap results)
                          (newMap (pi_peerDependencies packageInfo))"
      by (auto split: option.splits sum.splits)
    have "packageCache a1 \<subseteq>\<^sub>m packageCache a'"
      using buildDependencies_grows[rule_format, OF kids] by (auto dest: growsD_cache)
    with le have "packageCache a1 \<subseteq>\<^sub>m packageCache a2"
      by (blast intro: map_le_trans)
    with g info have again: "getPackageInfo s name version a2 = (Inr packageInfo, a2)"
      by (auto intro: getPackageInfo_again)
    from "2.IH"[OF g[symmetric] info] kids le
    have "buildDependencies fuel s (pi_dependencies packageInfo) ?path (?flat1, a2)
            = Some (Inr results, f', a2)"
      by auto
    with again node
    show "buildDependencyTree (Suc fuel) s name version parentPath (fst (flatDeps, a), a2)
            = Some (Inr node, f', a2)"
      by simp
  qed
next
  case (3 fuel s path st)
  then show ?case by (cases st) auto
next
  case (4 fuel s depName depVersion rest path st)
  show ?case
  proof (intro allI impI)
    fix results f' and a' a2 :: Analyzer
    assume run: "buildDependencies fuel s ((depName, depVersion) # rest) path st
                   = Some (Inr results, f', a')"
      and le: "packageCache a' \<subseteq>\<^sub>m packageCache a2"
    from run obtain depNode f1 a1 results' where
      one: "buildDependencyTree fuel s depName depVersion path st = Some (Inr depNode, f1, a1)"
      and more: "buildDependencies fuel s rest path (f1, a1) = Some (Inr results', f', a')"
      and results: "results = (depName, depNode) # results'"
      by (auto split: option.splits sum.splits)
    have "packageCache a1 \<subseteq>\<^sub>m packageCache a'"
      using buildDependencies_grows[rule_format, OF more] by (auto dest: growsD_cache)
    with le have "packageCache a1 \<subseteq>\<^sub>m packageCache a2"
      by (blast intro: map_le_trans)
    with "4.IH"(1) one
    have one': "buildDependencyTree fuel s depName depVersion path (fst st, a2)
                  = Some (Inr depNode, f1, a2)"
      by blast
    from "4.IH"(2)[OF one refl refl] more le
    have "buildDependencies fuel s rest path (f1, a2) = Some (Inr results', f', a2)"
      by auto
    with one' results
    show "buildDependencies fuel s ((depName, depVersion) # rest) path (fst st, a2)
            = Some (Inr results, f', a2)"
      by (simp del: buildDependencyTree.simps)
  qed
qed

text \<open>
  Claim C9, as the analyzer has it. When \<open>analyzeSingle\<close> has returned a result, running it
  again with the same arguments on the analyzer it left behind returns the same result
  and leaves the analyzer as it is: no request is added. The cache is keyed by
  \<open>name@descriptor\<close>: a key that is in the cache is answered from it without a request,
  and a resolution that succeeds leaves its result under that key.
\<close>

theorem analyze_again:
  "(\<forall>result a1. analyzeSingle fuel s packageName version a = Some (Inr result, a1)
       \<longrightarrow> analyzeSingle fuel s packageName version a1 = Some (Inr result, a1))
   \<and> (\<forall>packageInfo. packageCache a (name @ ''@'' @ descriptor) = Some packageInfo
       \<longrightarrow> getPackageInfo s name descriptor a = (Inr packageInfo, a))
   \<and> (\<forall>packageInfo a1. getPackageInfo s name descriptor a = (Inr packageInfo, a1)
       \<longrightarrow> packageCache a1 (name @ ''@'' @ descriptor) = Some packageInfo)"
proof (intro conjI allI impI)
  fix result a1
  assume run: "analyzeSingle fuel s packageName version a = Some (Inr result, a1)"
  then obtain tree flatDeps hoisted where
    build: "buildDependencyTree fuel s packageName version [] (Map.empty, a)
              = Some (Inr tree, flatDeps, a1)"
    and hoist: "convertToHoistedTree (semverLib s) tree = Inr hoisted"
    and result: "result = \<lparr> dependencyTree = tree, hoistedTree = hoisted,
                             flatDependencies = flatDeps \<rparr>"
    by (auto simp: analyzeSingle_def split: option.splits sum.splits)
  from buildDependencyTree_again[rule_format, OF build, of a1]
  have "buildDependencyTree fuel s packageName version [] (Map.empty, a1)
          = Some (Inr tree, flatDeps, a1)"
    by simp
  with hoist result show "analyzeSingle fuel s packageName version a1 = Some (Inr result, a1)"
    by (simp add: analyzeSingle_def)
next
  fix packageInfo
  assume "packageCache a (name @ ''@'' @ descriptor) = Some packageInfo"
  then show "getPackageInfo s name descriptor a = (Inr packageInfo, a)"
    by (simp add: getPackageInfo_hit cacheKey_def)
next
  fix packageInfo a1
  assume "getPackageInfo s name descriptor a = (Inr packageInfo, a1)"
  from getPackageInfo_stores[OF this]
  show "packageCache a1 (name @ ''@'' @ descriptor) = Some packageInfo"
    by (simp add: cacheKey_def)
qed

lemma analyzeSingle_app:
  "analyzeSingle (Suc (Suc 0)) npm ''app'' ''1.0.0'' newAnalyzer = Some (Inr appResult, appAnalyzer)"
  unfolding analyzeSingle_def buildDependencyTree_app
  by (simp add: appResult_def appTree_def convertToHoistedTree_def placeNode_def canBeHoisted_def
        andThen_def convertToHoistedDep_def newMap_def)


theorem analyze_again_witness:
  "analyzeSingle (Suc (Suc 0)) npm ''app'' ''1.0.0'' newAnalyzer = Some (Inr appResult, appAnalyzer)
   \<and> analyzeSingle (Suc (Suc 0)) npm ''app'' ''1.0.0'' appAnalyzer = Some (Inr appResult, appAnalyzer)
   \<and> packageCache appAnalyzer (''lib'' @ ''@'' @ ''^1.0.0'') = Some (libInfo ''1.1.0'')
   \<and> getPackageInfo npm ''lib'' ''^1.0.0'' appAnalyzer = (Inr (libInfo ''1.1.0''), appAnalyzer)"
proof -
  have cached: "packageCache appAnalyzer (''lib'' @ ''@'' @ ''^1.0.0'') = Some (libInfo ''1.1.0'')"
    by (simp add: appAnalyzer_def)
  have again: "analyzeSingle (Suc (Suc 0)) npm ''app'' ''1.0.0'' appAnalyzer
                 = Some (Inr appResult, appAnalyzer)"
    using analyze_again[where fuel = "Suc (Suc 0)" and s = npm and packageName = "''app''"
            and version = "''1.0.0''" and a = newAnalyzer] analyzeSingle_app
    by blast
  have hit: "getPackageInfo npm ''lib'' ''^1.0.0'' appAnalyzer = (Inr (libInfo ''1.1.0''), appAnalyzer)"
    using analyze_again[where a = appAnalyzer and name = "''lib''" and descriptor = "''^1.0.0''"
            and s = npm] cached
    by blast
  from analyzeSingle_app again cached hit show ?thesis by blast
qed

text \<open>
  The claim as it is written also promises one fetch for resolutions of the same key that run
  at the same time. The cache is written only when a response has been resolved, so a
  lookup that starts before does not find the key: here two resolutions of \<open>lib@^1.0.0\<close>
  start one after the other, as two branches of \<open>Promise.all\<close> that reach the same
  dependency do; then both responses arrive. Both resolve, and two requests have been
  issued.
\<close>

theorem no_single_flight_counterexample:
  "getPackageInfo_request npm ''lib'' ''^1.0.0'' newAnalyzer
     = (Awaiting ''https://registry.npmjs.org/lib'', firstAsked)
   \<and> getPackageInfo_request npm ''lib'' ''^1.0.0'' firstAsked
     = (Awaiting ''https://registry.npmjs.org/lib'', bothAsked)
   \<and> getPackageInfo_resume npm ''lib'' ''^1.0.0'' (fetch npm ''https://registry.npmjs.org/lib'')
        bothAsked
     = (Inr (libInfo ''1.1.0''), bothAnswered)
   \<and> getPackageInfo_resume npm ''lib'' ''^1.0.0'' (fetch npm ''https://registry.npmjs.org/lib'')
        bothAnswered
     = (Inr (libInfo ''1.1.0''), bothAnswered)
   \<and> requests bothAnswered
     = [''https://registry.npmjs.org/lib'', ''https://registry.npmjs.org/lib'']"
  by (simp add: getPackageInfo_simps npm_simps semverTable_simps firstAsked_def bothAsked_def
        bothAnswered_def libInfo_def)


subsection \<open>The request path\<close>

text \<open>
  Claim C10, as the analyzer has it. A resolution whose key is not in the cache issues
  exactly one request, to the configured registry URL followed by a slash and the package
  name as it was given: nothing in the name is encoded.
\<close>

theorem request_path_is_the_name:
  assumes "packageCache a (cacheKey name version) = None"
  shows "requests (snd (getPackageInfo s name version a)) = requests a @ [registry s @ ''/'' @ name]"
  unfolding getPackageInfo_miss[OF assms]
  by (simp add: getPackageInfo_resume_def requestUrl_def split: sum.splits)

theorem request_path_is_the_name_witness:
  "packageCache newAnalyzer (cacheKey ''@scope/pkg'' ''1.0.0'') = None
   \<and> requests (snd (getPackageInfo npm ''@scope/pkg'' ''1.0.0'' newAnalyzer))
       = requests newAnalyzer @ [registry npm @ ''/'' @ ''@scope/pkg'']"
proof -
  have miss: "packageCache newAnalyzer (cacheKey ''@scope/pkg'' ''1.0.0'') = None"
    by (simp add: newAnalyzer_def)
  from request_path_is_the_name[OF miss, of npm] miss show ?thesis by simp
qed

text \<open>For a scoped name the slash is sent as it is, not as \<open>%2F\<close>.\<close>

theorem scoped_name_not_encoded_counterexample:
  "requests (snd (getPackageInfo npm ''@scope/pkg'' ''1.0.0'' newAnalyzer))
     = [''https://registry.npmjs.org/@scope/pkg'']
   \<and> requests (snd (getPackageInfo npm ''@scope/pkg'' ''1.0.0'' newAnalyzer))
     \<noteq> [''https://registry.npmjs.org/@scope%2Fpkg'']"
  by (simp add: getPackageInfo_simps npm_simps)


end
